theory Spec2Isabelle
  imports Complex_Main "HOL-Library.AList" "HOL-Library.Multiset"
begin

section \<open>Duration formatter (\<open>DurationPipe.transform\<close>, duration.pipe.ts)\<close>

text \<open>
  The source:
  \<^verbatim>\<open>
  transform(v: string): string {
    const m = v.match(/(\d+):(\d{2}):(\d{2})$/);
    return m ? `${m[1].padStart(2, '0')}:${m[2]}:${m[3]}` : v;
  }
  \<close>
  A string is a list of characters. The regular expression has no flags, so \<open>\d\<close> is
  one of the ten ASCII digits and \<open>$\<close> is the end of the input.
\<close>

definition is_digit :: "char \<Rightarrow> bool" where
  "is_digit c = (c \<in> set ''0123456789'')"

text \<open>
  One attempt of the pattern at the start of \<open>s\<close>. The greedy \<open>\d+\<close> takes the
  longest run of digits; giving a digit back cannot help, since the next pattern
  character is the colon. What follows the run has to be exactly
  colon, two digits, colon, two digits, and then the end of the input.
\<close>

definition match_here :: "string \<Rightarrow> (string \<times> string \<times> string) option" where
  "match_here s =
     (let h = takeWhile is_digit s; r = dropWhile is_digit s in
      if h = [] then None
      else (case r of
              [c1, m1, m2, c2, s1, s2] \<Rightarrow>
                if c1 = CHR '':'' \<and> is_digit m1 \<and> is_digit m2 \<and>
                   c2 = CHR '':'' \<and> is_digit s1 \<and> is_digit s2
                then Some (h, [m1, m2], [s1, s2]) else None
            | _ \<Rightarrow> None))"

text \<open>
  \<open>String.prototype.match\<close> with a non-global expression: the start positions are tried
  from the left and the first successful attempt is the match; the three components are
  the capture groups \<open>m[1]\<close>, \<open>m[2]\<close>, \<open>m[3]\<close>. \<open>None\<close> is the \<open>null\<close> of a failed match.
\<close>

fun regex_match :: "string \<Rightarrow> (string \<times> string \<times> string) option" where
  "regex_match [] = match_here []"
| "regex_match (c # cs) =
     (case match_here (c # cs) of
        Some m \<Rightarrow> Some m
      | None \<Rightarrow> regex_match cs)"

definition padStart :: "nat \<Rightarrow> char \<Rightarrow> string \<Rightarrow> string" where
  "padStart n c s = replicate (n - length s) c @ s"

definition DurationPipe_transform :: "string \<Rightarrow> string" where
  "DurationPipe_transform v =
     (case regex_match v of
        Some (h, m, s) \<Rightarrow> padStart 2 (CHR ''0'') h @ '':'' @ m @ '':'' @ s
      | None \<Rightarrow> v)"

text \<open>
  The specification's words for the pattern: hours is one or more digits, minutes and
  seconds are exactly two digits each, and the pattern ends the string. \<open>ends_in_hms\<close>
  is any such reading of the end of \<open>v\<close>. \<open>trailing_hms\<close> is the reading that is the
  match: its hours are the whole run of digits before the first colon, so that \<open>pre\<close>,
  what precedes the match, does not end in a digit.
\<close>

definition all_digits :: "string \<Rightarrow> bool" where
  "all_digits s = list_all is_digit s"

definition ends_in_hms :: "string \<Rightarrow> string \<Rightarrow> string \<Rightarrow> string \<Rightarrow> string \<Rightarrow> bool" where
  "ends_in_hms v pre h m s =
     (v = pre @ h @ '':'' @ m @ '':'' @ s \<and>
      h \<noteq> [] \<and> all_digits h \<and>
      length m = 2 \<and> all_digits m \<and>
      length s = 2 \<and> all_digits s)"

definition trailing_hms :: "string \<Rightarrow> string \<Rightarrow> string \<Rightarrow> string \<Rightarrow> string \<Rightarrow> bool" where
  "trailing_hms v pre h m s =
     (v = pre @ h @ '':'' @ m @ '':'' @ s \<and>
      h \<noteq> [] \<and> all_digits h \<and>
      length m = 2 \<and> all_digits m \<and>
      length s = 2 \<and> all_digits s \<and>
      (pre = [] \<or> \<not> is_digit (last pre)))"

section \<open>The runtime\<close>

text \<open>
  The repository's code calls into the JavaScript runtime and into the Markdown library
  \<open>marked\<close>. Where a built-in is not modelled in full below, the code takes it from
  this record, and every theorem holds for every such runtime:
  \<^item> \<open>Number_toString\<close>: the text of a number in a template literal (the shortest
    decimal that reads back as the same double);
  \<^item> \<open>toLowerCase\<close>: \<open>String.prototype.toLowerCase\<close>, which follows the Unicode tables;
  \<^item> \<open>marked_parse\<close>: \<open>marked.parse\<close>, Markdown to HTML;
  \<^item> \<open>Date_parse\<close>: the time value of \<open>new Date(text)\<close> in milliseconds since the
    epoch, \<open>None\<close> for an invalid date (time value \<open>NaN\<close>);
  \<^item> \<open>LocalTZA\<close>: the offset of local time at a time value, in milliseconds.
  Numbers are the rationals: every finite double is one. \<open>NaN\<close> and the infinities are
  not modelled; a JSON document cannot write \<open>NaN\<close>.
\<close>

record runtime =
  Number_toString :: "rat \<Rightarrow> string"
  toLowerCase :: "string \<Rightarrow> string"
  marked_parse :: "string \<Rightarrow> string"
  Date_parse :: "string \<Rightarrow> int option"
  LocalTZA :: "int \<Rightarrow> int"

section \<open>KPI icon resolver (\<open>getKpiIcon\<close> of the two dialog components)\<close>

text \<open>
  Both dialogs carry the same code over a different object literal:
  \<^verbatim>\<open>
  const lowerKey = kpiKey.toLowerCase();
  if (iconMap[lowerKey]) { return iconMap[lowerKey]; }
  for (const [key, icon] of Object.entries(iconMap)) {
    if (lowerKey.includes(key)) { return icon; }
  }
  return 'insights';
  \<close>
  \<open>iconMap\<close> is an ordinary object, so the read \<open>iconMap[lowerKey]\<close> goes through the
  prototype chain: a name the literal does not define is looked up in
  \<open>Object.prototype\<close>. What a read yields is either text (an own property of the
  literal) or a built-in member of \<open>Object.prototype\<close> (a function, or for
  \<open>__proto__\<close> the prototype object itself); both kinds of built-in are truthy.
\<close>

datatype looked_up = Text string | Builtin string

definition Object_prototype_names :: "string list" where
  "Object_prototype_names =
     [''constructor'', ''__proto__'', ''hasOwnProperty'', ''isPrototypeOf'',
      ''propertyIsEnumerable'', ''toLocaleString'', ''toString'', ''valueOf'',
      ''__defineGetter__'', ''__defineSetter__'', ''__lookupGetter__'', ''__lookupSetter__'']"

definition object_get :: "(string \<times> string) list \<Rightarrow> string \<Rightarrow> looked_up option" where
  "object_get literal k =
     (case map_of literal k of
        Some v \<Rightarrow> Some (Text v)
      | None \<Rightarrow> if k \<in> set Object_prototype_names then Some (Builtin k) else None)"

fun truthy_read :: "looked_up option \<Rightarrow> bool" where
  "truthy_read None = False"
| "truthy_read (Some (Text v)) = (v \<noteq> [])"
| "truthy_read (Some (Builtin n)) = True"

fun is_prefix :: "string \<Rightarrow> string \<Rightarrow> bool" where
  "is_prefix [] s = True"
| "is_prefix (c # t) [] = False"
| "is_prefix (c # t) (d # s) = (c = d \<and> is_prefix t s)"

text \<open>\<open>String_includes s t\<close> is \<open>s.includes(t)\<close>: \<open>t\<close> occurs in \<open>s\<close> as a contiguous piece.\<close>

fun String_includes :: "string \<Rightarrow> string \<Rightarrow> bool" where
  "String_includes [] t = (t = [])"
| "String_includes (c # s) t = (is_prefix t (c # s) \<or> String_includes s t)"

text \<open>
  The \<open>for\<close> loop over \<open>Object.entries(iconMap)\<close>: the entries come in insertion order
  (no key of either literal is an array index), and the first hit returns.
\<close>

fun partial_match :: "(string \<times> string) list \<Rightarrow> string \<Rightarrow> string option" where
  "partial_match [] lowerKey = None"
| "partial_match ((key, icon) # entries) lowerKey =
     (if String_includes lowerKey key then Some icon else partial_match entries lowerKey)"

definition getKpiIcon :: "(string \<times> string) list \<Rightarrow> runtime \<Rightarrow> string \<Rightarrow> looked_up" where
  "getKpiIcon iconMap rt kpiKey =
     (let lowerKey = toLowerCase rt kpiKey in
      if truthy_read (object_get iconMap lowerKey) then the (object_get iconMap lowerKey)
      else (case partial_match iconMap lowerKey of
              Some icon \<Rightarrow> Text icon
            | None \<Rightarrow> Text ''insights''))"

definition analysis_iconMap :: "(string \<times> string) list" where
  "analysis_iconMap =
     [(''calls'', ''phone''), (''duration'', ''schedule''), (''success'', ''check_circle''),
      (''missed'', ''phone_missed''), (''answered'', ''call_received''),
      (''outbound'', ''call_made''), (''inbound'', ''call_received''),
      (''average'', ''trending_up''), (''total'', ''analytics''), (''rate'', ''percent''),
      (''volume'', ''volume_up''), (''longest'', ''timer''), (''shortest'', ''timer_off''),
      (''failed'', ''error''), (''busy'', ''phone_busy''), (''voicemail'', ''voicemail''),
      (''transfer'', ''call_split''), (''hold'', ''pause_circle''), (''queue'', ''queue''),
      (''agent'', ''person''), (''customer'', ''people''),
      (''satisfaction'', ''sentiment_satisfied''), (''resolution'', ''task_alt''),
      (''escalation'', ''trending_up''), (''abandoned'', ''call_end''),
      (''wait'', ''access_time''), (''response'', ''reply'')]"

definition queue_iconMap :: "(string \<times> string) list" where
  "queue_iconMap =
     [(''total offered'', ''phone_in_talk''), (''total answered'', ''call_received''),
      (''total abandoned'', ''call_end''), (''answer rate'', ''check_circle''),
      (''abandonment rate'', ''cancel''), (''avg wait time'', ''access_time''),
      (''max wait time'', ''timer''), (''avg handle time'', ''schedule''),
      (''queue'', ''queue''), (''calls'', ''phone''), (''rate'', ''percent''),
      (''time'', ''schedule''), (''wait'', ''access_time''), (''handle'', ''touch_app''),
      (''answered'', ''call_received''), (''abandoned'', ''call_end''),
      (''offered'', ''phone_in_talk'')]"

definition AnalysisDialog_getKpiIcon :: "runtime \<Rightarrow> string \<Rightarrow> looked_up" where
  "AnalysisDialog_getKpiIcon = getKpiIcon analysis_iconMap"

definition QueueDialog_getKpiIcon :: "runtime \<Rightarrow> string \<Rightarrow> looked_up" where
  "QueueDialog_getKpiIcon = getKpiIcon queue_iconMap"

text \<open>What \<open>toLowerCase\<close> does on ASCII text, for the examples.\<close>

definition ascii_lower_char :: "char \<Rightarrow> char" where
  "ascii_lower_char c =
     (case map_of (zip ''ABCDEFGHIJKLMNOPQRSTUVWXYZ'' ''abcdefghijklmnopqrstuvwxyz'') c of
        Some l \<Rightarrow> l
      | None \<Rightarrow> c)"

definition ascii_toLowerCase :: "string \<Rightarrow> string" where
  "ascii_toLowerCase s = map ascii_lower_char s"

text \<open>
  The resolver as the specification words it: an exact match of the lowered key, else
  the first entry in insertion order whose term is a piece of the lowered key, else the
  default.
\<close>

definition icon_spec :: "(string \<times> string) list \<Rightarrow> string \<Rightarrow> string" where
  "icon_spec iconMap lowerKey =
     (case map_of iconMap lowerKey of
        Some icon \<Rightarrow> icon
      | None \<Rightarrow>
          (case find (\<lambda>(key, icon). \<exists>before after. lowerKey = before @ key @ after) iconMap of
             Some (key, icon) \<Rightarrow> icon
           | None \<Rightarrow> ''insights''))"

section \<open>JSON values\<close>

text \<open>
  What \<open>JSON.parse\<close> produces, and \<open>undefined\<close>, which a read of a missing property
  yields. An object is the list of its own properties in property order.
\<close>

datatype js_value =
    Undefined
  | Null
  | Bool bool
  | Num rat
  | Str string
  | Arr "js_value list"
  | Obj "(string \<times> js_value) list"

datatype js_error = TypeError

definition bind_result :: "js_error + 'a \<Rightarrow> ('a \<Rightarrow> js_error + 'b) \<Rightarrow> js_error + 'b" where
  "bind_result r f = (case r of Inl e \<Rightarrow> Inl e | Inr v \<Rightarrow> f v)"

text \<open>\<open>typeof v === 'object'\<close>: true of \<open>null\<close>, of arrays and of objects.\<close>

fun typeof_object :: "js_value \<Rightarrow> bool" where
  "typeof_object Null = True"
| "typeof_object (Arr xs) = True"
| "typeof_object (Obj kvs) = True"
| "typeof_object v = False"

fun truthy :: "js_value \<Rightarrow> bool" where
  "truthy Undefined = False"
| "truthy Null = False"
| "truthy (Bool b) = b"
| "truthy (Num x) = (x \<noteq> 0)"
| "truthy (Str s) = (s \<noteq> [])"
| "truthy (Arr xs) = True"
| "truthy (Obj kvs) = True"

text \<open>
  The read \<open>v.name\<close>, for a name that no built-in prototype defines and that is neither
  an array index nor \<open>length\<close>; \<open>longest\<close>, \<open>duration\<close>, \<open>from_name\<close> and \<open>to_name\<close>,
  the names the builder reads, are such names. Reading from \<open>undefined\<close> or \<open>null\<close>
  throws.
\<close>

fun get_member :: "js_value \<Rightarrow> string \<Rightarrow> js_error + js_value" where
  "get_member Undefined name = Inl TypeError"
| "get_member Null name = Inl TypeError"
| "get_member (Obj kvs) name =
     Inr (case map_of kvs name of Some v \<Rightarrow> v | None \<Rightarrow> Undefined)"
| "get_member v name = Inr Undefined"

definition digit_char :: "nat \<Rightarrow> char" where
  "digit_char d = ''0123456789'' ! d"

text \<open>The decimal digits of a natural number, without leading zeros.\<close>

fun nat_digits :: "nat \<Rightarrow> string" where
  "nat_digits n =
     (if n < 10 then [digit_char n] else nat_digits (n div 10) @ [digit_char (n mod 10)])"

declare nat_digits.simps [simp del]

text \<open>
  The abstract operation \<open>ToString\<close>, which a template literal applies to each
  substitution. An array is joined with commas, \<open>null\<close> and \<open>undefined\<close> elements giving
  the empty text. A plain object is \<open>[object Object]\<close> through
  \<open>Object.prototype.toString\<close>; when the object has an own property named \<open>toString\<close>
  (a JSON value, so not callable) the conversion finds no method that returns a primitive
  and throws.
\<close>

fun ToString :: "runtime \<Rightarrow> js_value \<Rightarrow> js_error + string"
  and join_elements :: "runtime \<Rightarrow> js_value list \<Rightarrow> js_error + string" where
  "ToString rt Undefined = Inr ''undefined''"
| "ToString rt Null = Inr ''null''"
| "ToString rt (Bool b) = Inr (if b then ''true'' else ''false'')"
| "ToString rt (Num x) = Inr (Number_toString rt x)"
| "ToString rt (Str s) = Inr s"
| "ToString rt (Arr xs) = join_elements rt xs"
| "ToString rt (Obj kvs) =
     (if ''toString'' \<in> fst ` set kvs then Inl TypeError else Inr ''[object Object]'')"
| "join_elements rt [] = Inr []"
| "join_elements rt (x # xs) =
     bind_result (if x = Null \<or> x = Undefined then Inr [] else ToString rt x) (\<lambda>first.
     if xs = [] then Inr first
     else bind_result (join_elements rt xs) (\<lambda>rest. Inr (first @ '','' @ rest)))"

text \<open>
  The spread \<open>{ ...v }\<close> copies the own enumerable properties: those of an object, the
  indexed elements of an array, the indexed characters of a string, and nothing of any
  other value.
\<close>

fun own_properties :: "js_value \<Rightarrow> (string \<times> js_value) list" where
  "own_properties (Obj kvs) = kvs"
| "own_properties (Arr xs) = zip (map nat_digits [0..<length xs]) xs"
| "own_properties (Str s) = zip (map nat_digits [0..<length s]) (map (\<lambda>c. Str [c]) s)"
| "own_properties v = []"

section \<open>Call-report dialog (\<open>AnalysisDialogComponent\<close>)\<close>

text \<open>
  \<^verbatim>\<open>
  this.displayKpi = { ...data.kpi };
  if (typeof data.kpi.longest === 'object' && data.kpi.longest) {
    const l = data.kpi.longest;
    this.displayKpi['longest'] = `${l.duration} (${l.from_name} \<rightarrow> ${l.to_name})`;
  }
  const html = marked.parse(data.summary || '') as string;
  this.summaryHtml = this.sanitizer.bypassSecurityTrustHtml(html);
  \<close>
  \<open>kpi\<close> has the type \<open>any\<close>. The other fields of the report (the tables and the chart
  names) are not read here. The arrow is the character U+2192, three bytes in UTF-8.
\<close>

record ReportJSON =
  kpi :: js_value
  summary :: string

record dialog_fields =
  displayKpi :: "(string \<times> js_value) list"
  summaryHtml :: string

definition arrow :: string where
  "arrow = [CHR 0xE2, CHR 0x86, CHR 0x92]"

definition longest_text :: "runtime \<Rightarrow> js_value \<Rightarrow> js_error + string" where
  "longest_text rt l =
     bind_result (bind_result (get_member l ''duration'') (ToString rt)) (\<lambda>duration.
     bind_result (bind_result (get_member l ''from_name'') (ToString rt)) (\<lambda>from_name.
     bind_result (bind_result (get_member l ''to_name'') (ToString rt)) (\<lambda>to_name.
     Inr (duration @ '' ('' @ from_name @ '' '' @ arrow @ '' '' @ to_name @ '')''))))"

definition AnalysisDialog_constructor :: "runtime \<Rightarrow> ReportJSON \<Rightarrow> js_error + dialog_fields" where
  "AnalysisDialog_constructor rt data =
     (let copied = own_properties (kpi data) in
      bind_result (get_member (kpi data) ''longest'') (\<lambda>longest.
      bind_result
        (if typeof_object longest \<and> truthy longest
         then bind_result (longest_text rt longest) (\<lambda>text.
              Inr (AList.update ''longest'' (Str text) copied))
         else Inr copied) (\<lambda>shown.
      Inr \<lparr>displayKpi = shown, summaryHtml = marked_parse rt (summary data)\<rparr>)))"

section \<open>Number formatting (\<open>Number.prototype.toFixed\<close>)\<close>

text \<open>
  \<open>toFixed(f)\<close> as ECMAScript defines it on the number's exact value: the sign is split
  off; a magnitude of \<open>10^21\<close> or more is rendered by \<open>Number::toString\<close>; otherwise
  \<open>n\<close> is the integer nearest to \<open>x * 10^f\<close> (the larger one on a tie), its digits are
  padded with zeros to \<open>f + 1\<close> characters and the point goes before the last \<open>f\<close>.
\<close>

definition toFixed :: "runtime \<Rightarrow> nat \<Rightarrow> rat \<Rightarrow> string" where
  "toFixed rt f v =
     (let s = (if v < 0 then ''-'' else []); x = \<bar>v\<bar> in
      if x \<ge> 10 ^ 21 then s @ Number_toString rt x
      else
        let n = nat \<lfloor>x * 10 ^ f + 1 / 2\<rfloor>;
            m = nat_digits n;
            m = (if f = 0 then m
                 else
                   let m = (if length m \<le> f then replicate (f + 1 - length m) (CHR ''0'') @ m
                            else m);
                       k = length m
                   in take (k - f) m @ ''.'' @ drop (k - f) m)
        in s @ m)"

text \<open>
  The specification's "exactly one decimal place": an optional minus sign, one or more
  digits, the point, one digit.
\<close>

definition one_decimal :: "string \<Rightarrow> bool" where
  "one_decimal t =
     (\<exists>whole d. (t = whole @ ''.'' @ [d] \<or> t = ''-'' @ whole @ ''.'' @ [d]) \<and>
        whole \<noteq> [] \<and> all_digits whole \<and> is_digit d)"

section \<open>Dates (\<open>Date\<close> of the runtime)\<close>

text \<open>
  A \<open>Date\<close> is its time value: \<open>Some t\<close>, milliseconds since the epoch, or \<open>None\<close> for
  an invalid date. The relational operators compare the time values, and a comparison
  with an invalid date is false.
\<close>

definition Date_less :: "int option \<Rightarrow> int option \<Rightarrow> bool" where
  "Date_less a b = (case (a, b) of (Some x, Some y) \<Rightarrow> x < y | _ \<Rightarrow> False)"

definition msPerDay :: int where
  "msPerDay = 86400000"

definition Day :: "int \<Rightarrow> int" where
  "Day t = t div msPerDay"

definition WeekDay :: "int \<Rightarrow> int" where
  "WeekDay t = (Day t + 4) mod 7"

text \<open>
  Year, month (1 to 12) and day of the month of a day number in the proleptic Gregorian
  calendar. The day number is moved to count from 1 March of year 0, and split into
  400-year eras of 146097 days, centuries of 36524 days, four-year cycles of 1461 days
  and years of 365 days; the last century of an era and the last year of a cycle take
  the extra day.
\<close>

definition civil_from_days :: "int \<Rightarrow> int \<times> int \<times> int" where
  "civil_from_days d =
     (let z = d + 719468;
          era = z div 146097;
          doe = z mod 146097;
          c = min 3 (doe div 36524);
          r1 = doe - c * 36524;
          q = r1 div 1461;
          r2 = r1 mod 1461;
          a = min 3 (r2 div 365);
          doy = r2 - a * 365;
          mp = (5 * doy + 2) div 153;
          dom = doy - (153 * mp + 2) div 5 + 1;
          m = (if mp < 10 then mp + 3 else mp - 9);
          y = era * 400 + c * 100 + q * 4 + a + (if m \<le> 2 then 1 else 0)
      in (y, m, dom))"

text \<open>The calendar date of a time value in local time.\<close>

definition local_date :: "runtime \<Rightarrow> int \<Rightarrow> int \<times> int \<times> int" where
  "local_date rt t = civil_from_days (Day (t + LocalTZA rt t))"

definition month_names :: "string list" where
  "month_names = [''Jan'', ''Feb'', ''Mar'', ''Apr'', ''May'', ''Jun'',
                  ''Jul'', ''Aug'', ''Sep'', ''Oct'', ''Nov'', ''Dec'']"

definition day_names :: "string list" where
  "day_names = [''Sun'', ''Mon'', ''Tue'', ''Wed'', ''Thu'', ''Fri'', ''Sat'']"

text \<open>
  \<open>Date.prototype.toDateString\<close>: weekday, month, the day in two digits, and the year
  in at least four digits with a minus sign before a negative year.
\<close>

definition year_text :: "int \<Rightarrow> string" where
  "year_text y = (if y \<ge> 0 then [] else ''-'') @ padStart 4 (CHR ''0'') (nat_digits (nat \<bar>y\<bar>))"

definition toDateString :: "runtime \<Rightarrow> int option \<Rightarrow> string" where
  "toDateString rt date =
     (case date of
        None \<Rightarrow> ''Invalid Date''
      | Some tv \<Rightarrow>
          (case local_date rt tv of (y, m, d) \<Rightarrow>
             day_names ! nat (WeekDay (tv + LocalTZA rt tv)) @ '' '' @
             month_names ! nat (m - 1) @ '' '' @
             padStart 2 (CHR ''0'') (nat_digits (nat d)) @ '' '' @ year_text y))"

text \<open>
  The \<open>en-US\<close> pattern for \<open>{month: 'short', day: 'numeric', year: 'numeric'}\<close>: the
  short month name, the day, a comma and the year. The year field is the year of the
  era, so year 0 and the years before it print as 1, 2 and so on.
\<close>

definition short_date :: "int \<times> int \<times> int \<Rightarrow> string" where
  "short_date ymd =
     (case ymd of (y, m, d) \<Rightarrow>
        month_names ! nat (m - 1) @ '' '' @ nat_digits (nat d) @ '', '' @
        nat_digits (nat (if y > 0 then y else 1 - y)))"

definition toLocaleDateString :: "runtime \<Rightarrow> int option \<Rightarrow> string" where
  "toLocaleDateString rt date =
     (case date of
        None \<Rightarrow> ''Invalid Date''
      | Some tv \<Rightarrow> short_date (local_date rt tv))"

text \<open>
  The number a text of digits denotes. It reads the digits of a date back, which shows
  that the text of a date determines the date.
\<close>

definition digit_value :: "char \<Rightarrow> nat" where
  "digit_value c = length (takeWhile (\<lambda>x. x \<noteq> c) ''0123456789'')"

definition digits_value :: "string \<Rightarrow> nat" where
  "digits_value s = foldl (\<lambda>v c. 10 * v + digit_value c) 0 s"

section \<open>Queue-report dialog (\<open>QueueDialogComponent\<close>)\<close>

text \<open>
  The report of queue.service.ts, with the fields the dialog and the hourly chart read.
  The counts are passed through as they come; the interface calls them strings, the
  sample documents write numbers. \<open>queue_summary\<close> is the field \<open>summary\<close>.
\<close>

record interval =
  datetime :: string
  answered_calls :: js_value
  abandoned_calls :: js_value

record QueueMetrics =
  total_offered :: js_value
  total_answered :: js_value
  total_abandoned :: js_value
  total_overflowed :: js_value
  abandonment_rate :: rat
  answer_rate :: rat
  overflow_rate :: rat
  avg_wait_time_sec :: rat
  max_wait_time_sec :: rat
  avg_handle_time_sec :: rat
  peak_interval :: interval
  worst_abandon_interval :: interval

record HourBucket =
  HOUR :: rat
  ANSWERED_CALLS :: rat
  ABANDONED_CALLS :: rat
  OVERFLOWED_CALLS :: rat
  TOTAL_OFFERED :: rat
  ABANDONMENT_RATE :: rat

record QueueReportJSON =
  queue_metrics :: QueueMetrics
  service_trends :: "HourBucket list"
  queue_summary :: string

record queue_dialog_fields = dialog_fields +
  dateRange :: string

text \<open>
  \<^verbatim>\<open>
  const peakDate = new Date(this.data.queue_metrics.peak_interval.datetime);
  const worstDate = new Date(this.data.queue_metrics.worst_abandon_interval.datetime);
  const startDate = peakDate < worstDate ? peakDate : worstDate;
  const endDate = peakDate > worstDate ? peakDate : worstDate;
  ...
  if (startDate.toDateString() === endDate.toDateString()) {
    return formatDate(startDate);
  } else {
    return `${formatDate(startDate)} - ${formatDate(endDate)}`;
  }
  \<close>
\<close>

definition peakDate :: "runtime \<Rightarrow> QueueReportJSON \<Rightarrow> int option" where
  "peakDate rt data = Date_parse rt (datetime (peak_interval (queue_metrics data)))"

definition worstDate :: "runtime \<Rightarrow> QueueReportJSON \<Rightarrow> int option" where
  "worstDate rt data = Date_parse rt (datetime (worst_abandon_interval (queue_metrics data)))"

definition startDate :: "runtime \<Rightarrow> QueueReportJSON \<Rightarrow> int option" where
  "startDate rt data =
     (if Date_less (peakDate rt data) (worstDate rt data) then peakDate rt data
      else worstDate rt data)"

definition endDate :: "runtime \<Rightarrow> QueueReportJSON \<Rightarrow> int option" where
  "endDate rt data =
     (if Date_less (worstDate rt data) (peakDate rt data) then peakDate rt data
      else worstDate rt data)"

definition formatDate :: "runtime \<Rightarrow> int option \<Rightarrow> string" where
  "formatDate rt date = toLocaleDateString rt date"

definition calculateDateRange :: "runtime \<Rightarrow> QueueReportJSON \<Rightarrow> string" where
  "calculateDateRange rt data =
     (if toDateString rt (startDate rt data) = toDateString rt (endDate rt data)
      then formatDate rt (startDate rt data)
      else formatDate rt (startDate rt data) @ '' - '' @ formatDate rt (endDate rt data))"

text \<open>
  \<^verbatim>\<open>
  this.displayKpi = {
    'Total Offered': data.queue_metrics.total_offered,
    'Total Answered': data.queue_metrics.total_answered,
    'Total Abandoned': data.queue_metrics.total_abandoned,
    'Answer Rate': `${data.queue_metrics.answer_rate}%`,
    'Abandonment Rate': `${data.queue_metrics.abandonment_rate}%`,
    'Avg Wait Time': `${data.queue_metrics.avg_wait_time_sec}s`,
    'Max Wait Time': `${data.queue_metrics.max_wait_time_sec}s`,
    'Avg Handle Time': `${data.queue_metrics.avg_handle_time_sec.toFixed(1)}s`
  };
  \<close>
\<close>

definition QueueDialog_constructor :: "runtime \<Rightarrow> QueueReportJSON \<Rightarrow> queue_dialog_fields" where
  "QueueDialog_constructor rt data =
     (let qm = queue_metrics data in
      \<lparr>displayKpi =
         [(''Total Offered'', total_offered qm),
          (''Total Answered'', total_answered qm),
          (''Total Abandoned'', total_abandoned qm),
          (''Answer Rate'', Str (Number_toString rt (answer_rate qm) @ ''%'')),
          (''Abandonment Rate'', Str (Number_toString rt (abandonment_rate qm) @ ''%'')),
          (''Avg Wait Time'', Str (Number_toString rt (avg_wait_time_sec qm) @ ''s'')),
          (''Max Wait Time'', Str (Number_toString rt (max_wait_time_sec qm) @ ''s'')),
          (''Avg Handle Time'', Str (toFixed rt 1 (avg_handle_time_sec qm) @ ''s''))],
       summaryHtml = marked_parse rt (queue_summary data),
       dateRange = calculateDateRange rt data\<rparr>)"

section \<open>Hourly chart (\<open>QueueChartsComponent.createHourlyChart\<close>)\<close>

text \<open>
  \<open>Array.prototype.sort\<close> with a comparison function. The sort is stable and works in
  place: it returns the array it was called on, reordered. An element goes before the
  first element it does not compare greater than, which keeps equal elements in their
  original order.
\<close>

fun sort_insert :: "('a \<Rightarrow> 'a \<Rightarrow> rat) \<Rightarrow> 'a \<Rightarrow> 'a list \<Rightarrow> 'a list" where
  "sort_insert cmp x [] = [x]"
| "sort_insert cmp x (y # ys) =
     (if cmp x y \<le> 0 then x # y # ys else y # sort_insert cmp x ys)"

definition Array_sort :: "('a \<Rightarrow> 'a \<Rightarrow> rat) \<Rightarrow> 'a list \<Rightarrow> 'a list" where
  "Array_sort cmp xs = foldr (sort_insert cmp) xs []"

text \<open>
  \<^verbatim>\<open>
  const ctx = this.hourlyCanvas.nativeElement.getContext('2d');
  if (!ctx) return;
  const hourlyData = this.data.service_trends.sort((a, b) => a.HOUR - b.HOUR);
  const config = { type: 'line', data: {
      labels: hourlyData.map(h => `${h.HOUR}:00`),
      datasets: [
        { label: 'Total Calls', data: hourlyData.map(h => h.TOTAL_OFFERED), ... },
        { label: 'Abandonment Rate (%)', data: hourlyData.map(h => h.ABANDONMENT_RATE), ... }
      ] }, ... };
  new Chart(ctx, config);
  \<close>
  The state is the report the component was given, \<open>this.data\<close>: the function returns it
  as it is after the call, beside the labels and the two series handed to the chart
  (\<open>None\<close> when there is no drawing context). \<open>sort\<close> reorders the array of the report
  itself, and \<open>hourlyData\<close> is that same array.
\<close>

record dataset =
  dataset_label :: string
  dataset_data :: "rat list"

record ChartConfiguration =
  labels :: "string list"
  datasets :: "dataset list"

definition hourlyData :: "QueueReportJSON \<Rightarrow> HourBucket list" where
  "hourlyData data = Array_sort (\<lambda>a b. HOUR a - HOUR b) (service_trends data)"

definition createHourlyChart ::
  "bool \<Rightarrow> runtime \<Rightarrow> QueueReportJSON \<Rightarrow> QueueReportJSON \<times> ChartConfiguration option" where
  "createHourlyChart ctx rt data =
     (if \<not> ctx then (data, None)
      else
        let hourlyData = hourlyData data;
            data = data\<lparr>service_trends := hourlyData\<rparr>
        in (data,
            Some \<lparr>labels = map (\<lambda>h. Number_toString rt (HOUR h) @ '':00'') hourlyData,
                  datasets =
                    [\<lparr>dataset_label = ''Total Calls'',
                      dataset_data = map TOTAL_OFFERED hourlyData\<rparr>,
                     \<lparr>dataset_label = ''Abandonment Rate (%)'',
                      dataset_data = map ABANDONMENT_RATE hourlyData\<rparr>]\<rparr>))"

text \<open>
  A runtime and reports for the examples. The runtime is in UTC and lower-cases ASCII.
  Its \<open>Number_toString\<close> is \<open>Number::toString\<close> on the numbers of the examples: a whole
  number of magnitude below \<open>10^21\<close> is written in decimal, and \<open>10^21\<close> is written
  \<open>1e+21\<close>; on a number with a fraction it writes the whole part only, which is not what
  \<open>Number::toString\<close> does, and no example uses it there. Its \<open>Date_parse\<close> knows three
  texts, with their time values read as UTC.
\<close>

definition example_Number_toString :: "rat \<Rightarrow> string" where
  "example_Number_toString x =
     (if x = 10 ^ 21 then ''1e+21''
      else (if x < 0 then ''-'' else []) @ nat_digits (nat \<lfloor>\<bar>x\<bar>\<rfloor>))"

definition example_Date_parse :: "string \<Rightarrow> int option" where
  "example_Date_parse text =
     map_of [(''2025-07-09T13:30:00'', 1752067800000),
             (''2025-07-16T11:30:00'', 1752665400000),
             (''2025-07-09T08:00:00'', 1752048000000)] text"

definition example_runtime :: runtime where
  "example_runtime =
     \<lparr>Number_toString = example_Number_toString,
      toLowerCase = ascii_toLowerCase,
      marked_parse = (\<lambda>markdown. markdown),
      Date_parse = example_Date_parse,
      LocalTZA = (\<lambda>t. 0)\<rparr>"

definition example_interval :: "string \<Rightarrow> interval" where
  "example_interval text =
     \<lparr>datetime = text, answered_calls = Str ''2'', abandoned_calls = Str ''1''\<rparr>"

definition example_report :: "rat \<Rightarrow> string \<Rightarrow> string \<Rightarrow> HourBucket list \<Rightarrow> QueueReportJSON" where
  "example_report handle peak worst trends =
     \<lparr>queue_metrics =
        \<lparr>total_offered = Num 15, total_answered = Num 9, total_abandoned = Num 6,
         total_overflowed = Num 0, abandonment_rate = 40, answer_rate = 60,
         overflow_rate = 0, avg_wait_time_sec = 35, max_wait_time_sec = 50,
         avg_handle_time_sec = handle,
         peak_interval = example_interval peak,
         worst_abandon_interval = example_interval worst\<rparr>,
      service_trends = trends,
      queue_summary = ''Queue performance summary''\<rparr>"

definition example_bucket :: "rat \<Rightarrow> rat \<Rightarrow> rat \<Rightarrow> HourBucket" where
  "example_bucket hour offered rate =
     \<lparr>HOUR = hour, ANSWERED_CALLS = offered, ABANDONED_CALLS = 0, OVERFLOWED_CALLS = 0,
      TOTAL_OFFERED = offered, ABANDONMENT_RATE = rate\<rparr>"

section \<open>Properties of the duration formatter\<close>

lemma colon_not_digit: "\<not> is_digit CHR '':''"
  by (simp add: is_digit_def)

lemma zero_is_digit: "is_digit CHR ''0''"
  by (simp add: is_digit_def)

lemma takeWhile_run:
  assumes "all_digits h" and "\<not> is_digit c"
  shows "takeWhile is_digit (h @ c # r) = h"
  using assms by (induction h) (simp_all add: all_digits_def)

lemma dropWhile_run:
  assumes "all_digits h" and "\<not> is_digit c"
  shows "dropWhile is_digit (h @ c # r) = c # r"
  using assms by (induction h) (simp_all add: all_digits_def)

lemma all_digits_takeWhile: "all_digits (takeWhile is_digit s)"
  by (induction s) (simp_all add: all_digits_def)

lemma length2_cases: "length m = 2 \<Longrightarrow> \<exists>a b. m = [a, b]"
  by (cases m; cases "tl m") auto

lemma match_here_Some_iff:
  "match_here v = Some (h, m, s) \<longleftrightarrow> trailing_hms v [] h m s"
proof
  assume a: "match_here v = Some (h, m, s)"
  let ?h = "takeWhile is_digit v" and ?r = "dropWhile is_digit v"
  from a have hne: "?h \<noteq> []"
    by (auto simp: match_here_def Let_def split: if_splits)
  from a hne obtain c1 m1 m2 c2 s1 s2 where r: "?r = [c1, m1, m2, c2, s1, s2]"
    by (auto simp: match_here_def Let_def split: if_splits list.splits)
  from a hne r have parts: "c1 = CHR '':''" "is_digit m1" "is_digit m2"
      "c2 = CHR '':''" "is_digit s1" "is_digit s2"
      "h = ?h" "m = [m1, m2]" "s = [s1, s2]"
    by (auto simp: match_here_def Let_def split: if_splits)
  have "v = ?h @ ?r" by simp
  then have "v = ?h @ [c1, m1, m2, c2, s1, s2]" by (simp only: r)
  then have v: "v = h @ '':'' @ m @ '':'' @ s"
    by (simp only: parts append_Cons append_Nil)
  have hd: "h \<noteq> []" "all_digits h"
    unfolding parts(7) by (rule hne, rule all_digits_takeWhile)
  have md: "length m = 2" "all_digits m" "length s = 2" "all_digits s"
    using parts(2,3,5,6) by (simp_all add: parts(8,9) all_digits_def)
  show "trailing_hms v [] h m s"
    unfolding trailing_hms_def using v hd md by blast
next
  assume t: "trailing_hms v [] h m s"
  then obtain m1 m2 s1 s2 where ms: "m = [m1, m2]" "s = [s1, s2]"
    using length2_cases unfolding trailing_hms_def by metis
  from t ms have v: "v = h @ CHR '':'' # [m1, m2, CHR '':'', s1, s2]"
    and h: "h \<noteq> []" "all_digits h"
    and d: "is_digit m1" "is_digit m2" "is_digit s1" "is_digit s2"
    by (simp_all add: trailing_hms_def all_digits_def)
  have "takeWhile is_digit v = h" "dropWhile is_digit v = [CHR '':'', m1, m2, CHR '':'', s1, s2]"
    unfolding v using h(2) colon_not_digit by (rule takeWhile_run, rule dropWhile_run)
  with h d ms show "match_here v = Some (h, m, s)"
    by (simp add: match_here_def)
qed

lemma hms_same_end:
  assumes "a @ x @ '':'' @ m @ '':'' @ s = b @ '':'' @ m' @ '':'' @ s'"
    and "length m = 2" "length s = 2" "length m' = 2" "length s' = 2"
  shows "a @ x = b" and "m = m'" and "s = s'"
proof -
  have "(a @ x) @ ('':'' @ m @ '':'' @ s) = b @ ('':'' @ m' @ '':'' @ s')"
    using assms(1) by simp
  moreover have "length ('':'' @ m @ '':'' @ s) = length ('':'' @ m' @ '':'' @ s')"
    using assms(2-5) by simp
  ultimately have e: "a @ x = b" "'':'' @ m @ '':'' @ s = '':'' @ m' @ '':'' @ s'"
    by (metis append_eq_append_conv)+
  show "a @ x = b" by (rule e(1))
  from e(2) have "m @ ('':'' @ s) = m' @ ('':'' @ s')" by simp
  with assms(2,4) show "m = m'" and "s = s'" by simp_all
qed

lemma no_earlier_match:
  assumes t: "trailing_hms v pre h m s" and "pre \<noteq> []"
  shows "match_here v = None"
proof (rule ccontr)
  assume "match_here v \<noteq> None"
  then obtain h' m' s' where "match_here v = Some (h', m', s')" by auto
  then have t': "trailing_hms v [] h' m' s'" by (simp add: match_here_Some_iff)
  from t t' have "pre @ h @ '':'' @ m @ '':'' @ s = h' @ '':'' @ m' @ '':'' @ s'"
    by (simp add: trailing_hms_def)
  moreover from t t' have "length m = 2" "length s = 2" "length m' = 2" "length s' = 2"
    by (simp_all add: trailing_hms_def)
  ultimately have "pre @ h = h'" by (rule hms_same_end)
  moreover from t' have "all_digits h'" by (simp add: trailing_hms_def)
  ultimately have "all_digits pre" by (auto simp: all_digits_def)
  with \<open>pre \<noteq> []\<close> have "is_digit (last pre)"
    by (simp add: all_digits_def list_all_iff)
  with t \<open>pre \<noteq> []\<close> show False by (simp add: trailing_hms_def)
qed

lemma trailing_hms_Cons:
  assumes "trailing_hms cs pre h m s" and "match_here (c # cs) = None"
  shows "trailing_hms (c # cs) (c # pre) h m s"
proof (cases "pre = []")
  case False
  with assms(1) show ?thesis by (simp add: trailing_hms_def)
next
  case True
  have "\<not> is_digit c"
  proof
    assume "is_digit c"
    with assms(1) True have "trailing_hms (c # cs) [] (c # h) m s"
      by (simp add: trailing_hms_def all_digits_def)
    then have "match_here (c # cs) = Some (c # h, m, s)"
      by (simp add: match_here_Some_iff)
    with assms(2) show False by simp
  qed
  with assms(1) True show ?thesis by (simp add: trailing_hms_def)
qed

lemma trailing_hms_tail:
  assumes "trailing_hms (c # cs) (p # ps) h m s"
  shows "trailing_hms cs ps h m s"
  using assms by (auto simp: trailing_hms_def split: if_splits)

lemma regex_match_Some_iff:
  "regex_match v = Some (h, m, s) \<longleftrightarrow> (\<exists>pre. trailing_hms v pre h m s)"
proof (induction v)
  case Nil
  have "trailing_hms [] pre h m s \<Longrightarrow> pre = []" for pre
    by (simp add: trailing_hms_def)
  then show ?case by (auto simp: match_here_Some_iff)
next
  case (Cons c cs)
  note IH = Cons.IH
  show ?case
  proof
    assume a: "regex_match (c # cs) = Some (h, m, s)"
    show "\<exists>pre. trailing_hms (c # cs) pre h m s"
    proof (cases "match_here (c # cs)")
      case None
      with a have "regex_match cs = Some (h, m, s)" by simp
      then obtain pre where "trailing_hms cs pre h m s" using IH by blast
      then have "trailing_hms (c # cs) (c # pre) h m s"
        using None by (rule trailing_hms_Cons)
      then show ?thesis ..
    next
      case (Some x)
      with a have "match_here (c # cs) = Some (h, m, s)" by simp
      then show ?thesis by (auto simp: match_here_Some_iff)
    qed
  next
    assume "\<exists>pre. trailing_hms (c # cs) pre h m s"
    then obtain pre where t: "trailing_hms (c # cs) pre h m s" ..
    show "regex_match (c # cs) = Some (h, m, s)"
    proof (cases "pre = []")
      case True
      with t have "match_here (c # cs) = Some (h, m, s)"
        by (simp add: match_here_Some_iff)
      then show ?thesis by simp
    next
      case False
      then obtain p ps where pre: "pre = p # ps" by (cases pre) auto
      from t False have "match_here (c # cs) = None" by (rule no_earlier_match)
      moreover from t have "trailing_hms cs ps h m s"
        unfolding pre by (rule trailing_hms_tail)
      then have "regex_match cs = Some (h, m, s)" using IH by blast
      ultimately show ?thesis by simp
    qed
  qed
qed

lemma regex_match_None_iff:
  "regex_match v = None \<longleftrightarrow> (\<forall>pre h m s. \<not> trailing_hms v pre h m s)"
proof -
  have "regex_match v = None \<longleftrightarrow> (\<forall>h m s. regex_match v \<noteq> Some (h, m, s))"
    by (cases "regex_match v") auto
  then show ?thesis by (auto simp: regex_match_Some_iff)
qed

lemma padStart_idem: "padStart 2 c (padStart 2 c h) = padStart 2 c h"
  by (simp add: padStart_def)

lemma all_digits_padStart: "all_digits h \<Longrightarrow> all_digits (padStart n (CHR ''0'') h)"
  by (auto simp: padStart_def all_digits_def zero_is_digit list_all_iff)

lemma transform_on_match:
  assumes "trailing_hms v pre h m s"
  shows "DurationPipe_transform v = padStart 2 (CHR ''0'') h @ '':'' @ m @ '':'' @ s"
proof -
  from assms have "regex_match v = Some (h, m, s)"
    by (auto simp: regex_match_Some_iff)
  then show ?thesis by (simp add: DurationPipe_transform_def)
qed

text \<open>
  A string that ends in the pattern has a match: the hours of the match are the given
  hours with the digits that end \<open>pre\<close> before them.
\<close>

lemma ends_in_hms_match:
  assumes "ends_in_hms v pre h m s"
  shows "\<exists>pre' d. pre = pre' @ d \<and> all_digits d \<and> trailing_hms v pre' (d @ h) m s"
proof -
  define d where "d = rev (takeWhile is_digit (rev pre))"
  define pre' where "pre' = rev (dropWhile is_digit (rev pre))"
  have "pre = rev (takeWhile is_digit (rev pre) @ dropWhile is_digit (rev pre))"
    by (simp only: takeWhile_dropWhile_id rev_rev_ident)
  also have "\<dots> = pre' @ d"
    unfolding d_def pre'_def by (rule rev_append)
  finally have split: "pre = pre' @ d" .
  have "\<forall>c \<in> set (takeWhile is_digit (rev pre)). is_digit c"
    by (auto dest: set_takeWhileD)
  then have digits: "all_digits d" by (simp add: d_def all_digits_def list_all_iff)
  have stop: "pre' = [] \<or> \<not> is_digit (last pre')"
  proof (cases "dropWhile is_digit (rev pre) = []")
    case True
    then show ?thesis by (simp add: pre'_def)
  next
    case False
    then have "\<not> is_digit (hd (dropWhile is_digit (rev pre)))" by (rule hd_dropWhile)
    with False show ?thesis by (simp add: pre'_def last_rev)
  qed
  from assms split digits stop have "trailing_hms v pre' (d @ h) m s"
    by (simp add: ends_in_hms_def trailing_hms_def all_digits_def)
  with split digits show ?thesis by blast
qed

lemma no_match_iff: "regex_match v = None \<longleftrightarrow> (\<forall>pre h m s. \<not> ends_in_hms v pre h m s)"
proof
  assume "regex_match v = None"
  then have "\<forall>pre h m s. \<not> trailing_hms v pre h m s" by (simp add: regex_match_None_iff)
  then show "\<forall>pre h m s. \<not> ends_in_hms v pre h m s"
    using ends_in_hms_match by blast
next
  assume a: "\<forall>pre h m s. \<not> ends_in_hms v pre h m s"
  have "trailing_hms v pre h m s \<Longrightarrow> ends_in_hms v pre h m s" for pre h m s
    by (simp add: ends_in_hms_def trailing_hms_def)
  with a have "\<forall>pre h m s. \<not> trailing_hms v pre h m s" by blast
  then show "regex_match v = None" by (simp add: regex_match_None_iff)
qed

text \<open>
  Claim C6. For every input string: when the string ends in the pattern hours, colon,
  two-digit minutes, colon, two-digit seconds, it has a match, whose hours are the whole
  run of one or more digits before the first colon, and the formatter returns the match
  with the hours padded with zeros on the left to at least two characters; when the
  string does not end in the pattern, the formatter returns the input unchanged. The
  formatter is a total function: no input raises.
\<close>

theorem DurationPipe_transform_spec:
  "(ends_in_hms v pre h m s \<longrightarrow> (\<exists>pre' h'. trailing_hms v pre' h' m s)) \<and>
   (trailing_hms v pre h m s \<longrightarrow>
      DurationPipe_transform v = padStart 2 (CHR ''0'') h @ '':'' @ m @ '':'' @ s \<and>
      2 \<le> length (padStart 2 (CHR ''0'') h) \<and>
      padStart 2 (CHR ''0'') h = replicate (2 - length h) (CHR ''0'') @ h) \<and>
   ((\<forall>pre h m s. \<not> ends_in_hms v pre h m s) \<longrightarrow> DurationPipe_transform v = v)"
proof (intro conjI impI)
  assume "ends_in_hms v pre h m s"
  then show "\<exists>pre' h'. trailing_hms v pre' h' m s"
    using ends_in_hms_match by blast
next
  assume "trailing_hms v pre h m s"
  then show "DurationPipe_transform v = padStart 2 (CHR ''0'') h @ '':'' @ m @ '':'' @ s"
    by (rule transform_on_match)
next
  show "2 \<le> length (padStart 2 (CHR ''0'') h)" by (simp add: padStart_def)
next
  show "padStart 2 (CHR ''0'') h = replicate (2 - length h) (CHR ''0'') @ h"
    by (simp add: padStart_def)
next
  assume "\<forall>pre h m s. \<not> ends_in_hms v pre h m s"
  then have "regex_match v = None" by (rule iffD2 [OF no_match_iff])
  then show "DurationPipe_transform v = v" by (simp add: DurationPipe_transform_def)
qed

theorem DurationPipe_transform_spec_witness:
  "trailing_hms ''0 days 00:03:15'' ''0 days '' ''00'' ''03'' ''15'' \<and>
   DurationPipe_transform ''0 days 00:03:15'' = ''00:03:15'' \<and>
   trailing_hms ''1:05:09'' [] ''1'' ''05'' ''09'' \<and>
   DurationPipe_transform ''1:05:09'' = ''01:05:09'' \<and>
   (\<forall>pre h m s. \<not> ends_in_hms ''not-a-duration'' pre h m s) \<and>
   DurationPipe_transform ''not-a-duration'' = ''not-a-duration''"
proof -
  have a: "trailing_hms ''0 days 00:03:15'' ''0 days '' ''00'' ''03'' ''15''"
    by (simp add: trailing_hms_def all_digits_def is_digit_def)
  have b: "trailing_hms ''1:05:09'' [] ''1'' ''05'' ''09''"
    by (simp add: trailing_hms_def all_digits_def is_digit_def)
  have "regex_match ''not-a-duration'' = None"
    by (simp add: match_here_def is_digit_def)
  then have c: "\<forall>pre h m s. \<not> ends_in_hms ''not-a-duration'' pre h m s"
    by (rule iffD1 [OF no_match_iff])
  have "DurationPipe_transform ''0 days 00:03:15'' =
          padStart 2 (CHR ''0'') ''00'' @ '':'' @ ''03'' @ '':'' @ ''15''"
    using a DurationPipe_transform_spec [of "''0 days 00:03:15''" "''0 days ''" "''00''" "''03''" "''15''"]
    by blast
  then have a': "DurationPipe_transform ''0 days 00:03:15'' = ''00:03:15''"
    by (simp add: padStart_def)
  have "DurationPipe_transform ''1:05:09'' =
          padStart 2 (CHR ''0'') ''1'' @ '':'' @ ''05'' @ '':'' @ ''09''"
    using b DurationPipe_transform_spec [of "''1:05:09''" "[]" "''1''" "''05''" "''09''"]
    by blast
  then have b': "DurationPipe_transform ''1:05:09'' = ''01:05:09''"
    by (simp add: padStart_def)
  have c': "DurationPipe_transform ''not-a-duration'' = ''not-a-duration''"
    using c DurationPipe_transform_spec [of "''not-a-duration''"] by blast
  show ?thesis using a a' b b' c c' by blast
qed

text \<open>
  Claim C7. The duration formatter is idempotent: formatting its own output gives the
  same output, for every input string.
\<close>

theorem DurationPipe_transform_idempotent:
  "DurationPipe_transform (DurationPipe_transform v) = DurationPipe_transform v"
proof (cases "regex_match v")
  case None
  then show ?thesis by (simp add: DurationPipe_transform_def)
next
  case (Some x)
  then obtain h m s where r: "regex_match v = Some (h, m, s)" by (cases x) auto
  then obtain pre where t: "trailing_hms v pre h m s"
    by (auto simp: regex_match_Some_iff)
  let ?h = "padStart 2 (CHR ''0'') h"
  let ?out = "?h @ '':'' @ m @ '':'' @ s"
  have out: "DurationPipe_transform v = ?out"
    using r by (simp add: DurationPipe_transform_def)
  from t have "trailing_hms ?out [] ?h m s"
    by (simp add: trailing_hms_def all_digits_padStart) (simp add: padStart_def)
  then have "DurationPipe_transform ?out = padStart 2 (CHR ''0'') ?h @ '':'' @ m @ '':'' @ s"
    by (rule transform_on_match)
  then show ?thesis by (simp only: out padStart_idem)
qed

section \<open>Properties of the icon resolver\<close>

lemma is_prefix_iff: "is_prefix t s \<longleftrightarrow> (\<exists>after. s = t @ after)"
  by (induction t s rule: is_prefix.induct) auto

lemma String_includes_iff: "String_includes s t \<longleftrightarrow> (\<exists>before after. s = before @ t @ after)"
proof (induction s)
  case Nil
  then show ?case by auto
next
  case (Cons c s)
  note IH = Cons.IH
  show ?case
  proof
    assume "String_includes (c # s) t"
    then consider "is_prefix t (c # s)" | "String_includes s t" by auto
    then show "\<exists>before after. c # s = before @ t @ after"
    proof cases
      case 1
      then obtain after where "c # s = [] @ t @ after" by (auto simp: is_prefix_iff)
      then show ?thesis by blast
    next
      case 2
      then obtain before after where "s = before @ t @ after" using IH by blast
      then have "c # s = (c # before) @ t @ after" by simp
      then show ?thesis by blast
    qed
  next
    assume "\<exists>before after. c # s = before @ t @ after"
    then obtain before after where e: "c # s = before @ t @ after" by blast
    show "String_includes (c # s) t"
    proof (cases "before = []")
      case True
      with e have "\<exists>after. c # s = t @ after" by auto
      then have "is_prefix t (c # s)" by (simp only: is_prefix_iff)
      then show ?thesis by simp
    next
      case False
      then obtain b bs where "before = b # bs" by (cases before) auto
      with e have "s = bs @ t @ after" by simp
      then have "String_includes s t" using IH by blast
      then show ?thesis by simp
    qed
  qed
qed

lemma partial_match_find:
  "partial_match iconMap lowerKey =
     map_option snd (find (\<lambda>(key, icon). \<exists>before after. lowerKey = before @ key @ after) iconMap)"
  by (induction iconMap lowerKey rule: partial_match.induct) (simp_all add: String_includes_iff)

text \<open>
  Away from the names of \<open>Object.prototype\<close>, and with no empty icon in the literal,
  the resolver is the specification's three-step rule on the lowered key.
\<close>

lemma getKpiIcon_own_names:
  assumes "toLowerCase rt kpiKey \<notin> set Object_prototype_names"
    and "[] \<notin> snd ` set iconMap"
  shows "getKpiIcon iconMap rt kpiKey = Text (icon_spec iconMap (toLowerCase rt kpiKey))"
proof (cases "map_of iconMap (toLowerCase rt kpiKey)")
  case None
  with assms(1) have "object_get iconMap (toLowerCase rt kpiKey) = None"
    by (simp add: object_get_def)
  with None show ?thesis
    by (auto simp: getKpiIcon_def icon_spec_def partial_match_find split: option.splits)
next
  case (Some icon)
  then have "(toLowerCase rt kpiKey, icon) \<in> set iconMap" by (rule map_of_SomeD)
  with assms(2) have "icon \<noteq> []" by force
  with Some show ?thesis
    by (simp add: getKpiIcon_def icon_spec_def object_get_def)
qed

lemma analysis_icons_nonempty: "[] \<notin> snd ` set analysis_iconMap"
  by (simp add: analysis_iconMap_def)

lemma queue_icons_nonempty: "[] \<notin> snd ` set queue_iconMap"
  by (simp add: queue_iconMap_def)

lemma getKpiIcon_follows_spec:
  assumes "toLowerCase rt kpiKey \<notin> set Object_prototype_names"
  shows "AnalysisDialog_getKpiIcon rt kpiKey =
           Text (icon_spec analysis_iconMap (toLowerCase rt kpiKey))"
    and "QueueDialog_getKpiIcon rt kpiKey =
           Text (icon_spec queue_iconMap (toLowerCase rt kpiKey))"
  unfolding AnalysisDialog_getKpiIcon_def QueueDialog_getKpiIcon_def
  using assms analysis_icons_nonempty queue_icons_nonempty
  by (simp_all add: getKpiIcon_own_names)

lemma getKpiIcon_examples:
  "QueueDialog_getKpiIcon example_runtime ''total_offered'' = Text ''phone_in_talk''"
  "AnalysisDialog_getKpiIcon example_runtime ''total_offered'' = Text ''analytics''"
  "QueueDialog_getKpiIcon example_runtime ''Answer Rate'' = Text ''check_circle''"
  "AnalysisDialog_getKpiIcon example_runtime ''vm_pct'' = Text ''insights''"
  by code_simp+

text \<open>
  Claim C5. Each icon resolver lower-cases the key, returns the mapped icon on an exact
  match, otherwise the icon of the first entry in insertion order whose term is a piece
  of the lowered key, otherwise the default \<open>insights\<close>. The rule gives \<open>insights\<close> for
  the key \<open>constructor\<close>, which neither literal defines and which contains none of
  their terms. The code does not: the read \<open>iconMap[lowerKey]\<close> finds the inherited
  \<open>Object.prototype.constructor\<close>, which is truthy, and returns that built-in
  function in place of an icon name.
\<close>

theorem getKpiIcon_constructor:
  "AnalysisDialog_getKpiIcon example_runtime ''constructor'' = Builtin ''constructor'' \<and>
   QueueDialog_getKpiIcon example_runtime ''Constructor'' = Builtin ''constructor'' \<and>
   icon_spec analysis_iconMap (toLowerCase example_runtime ''constructor'') = ''insights'' \<and>
   icon_spec queue_iconMap (toLowerCase example_runtime ''Constructor'') = ''insights''"
proof -
  have a: "AnalysisDialog_getKpiIcon example_runtime ''constructor'' = Builtin ''constructor''"
    by code_simp
  have q: "QueueDialog_getKpiIcon example_runtime ''Constructor'' = Builtin ''constructor''"
    by code_simp
  have l: "toLowerCase example_runtime ''constructor'' = ''constructor''"
    "toLowerCase example_runtime ''Constructor'' = ''constructor''"
    by code_simp+
  have "map_of analysis_iconMap ''constructor'' = None"
    "partial_match analysis_iconMap ''constructor'' = None"
    by code_simp+
  then have sa: "icon_spec analysis_iconMap ''constructor'' = ''insights''"
    by (simp add: icon_spec_def partial_match_find split: option.splits)
  have "map_of queue_iconMap ''constructor'' = None"
    "partial_match queue_iconMap ''constructor'' = None"
    by code_simp+
  then have sq: "icon_spec queue_iconMap ''constructor'' = ''insights''"
    by (simp add: icon_spec_def partial_match_find split: option.splits)
  show ?thesis using a q sa sq by (simp only: l simp_thms)
qed

section \<open>Properties of the call-report dialog\<close>

lemma longest_text_fields:
  assumes "map_of l ''duration'' = Some dv" and "ToString rt dv = Inr d"
    and "map_of l ''from_name'' = Some fv" and "ToString rt fv = Inr f"
    and "map_of l ''to_name'' = Some tv" and "ToString rt tv = Inr t"
  shows "longest_text rt (Obj l) = Inr (d @ '' ('' @ f @ '' '' @ arrow @ '' '' @ t @ '')'')"
  using assms by (simp add: longest_text_def bind_result_def)

lemma update_keeps_keys:
  "map fst al = take (length al) (map fst (AList.update k v al))"
  by (induction al) auto

text \<open>
  Whichever branch is taken, the result is the copy of \<open>kpi\<close> or the copy with \<open>longest\<close>
  written: the keys of \<open>kpi\<close> stay in place and every other entry is as in \<open>kpi\<close>.
\<close>

lemma constructor_copies:
  assumes "AnalysisDialog_constructor rt data = Inr vm" and "kpi data = Obj kvs"
  shows "map fst kvs = take (length kvs) (map fst (displayKpi vm)) \<and>
         (\<forall>k. k \<noteq> ''longest'' \<longrightarrow> map_of (displayKpi vm) k = map_of kvs k)"
proof -
  from assms have "displayKpi vm = kvs \<or>
      (\<exists>composed. displayKpi vm = AList.update ''longest'' (Str composed) kvs)"
    by (auto simp: AnalysisDialog_constructor_def bind_result_def
        split: sum.splits if_splits)
  then show ?thesis
  proof
    assume "displayKpi vm = kvs"
    then show ?thesis by simp
  next
    assume "\<exists>composed. displayKpi vm = AList.update ''longest'' (Str composed) kvs"
    then obtain composed where "displayKpi vm = AList.update ''longest'' (Str composed) kvs" ..
    then show ?thesis
      using update_keeps_keys [of kvs "''longest''" "Str composed"] by (simp add: update_conv')
  qed
qed

text \<open>
  Claim C4. For a call report whose \<open>kpi\<close> is an object, the builder copies the entries
  of \<open>kpi\<close> into \<open>displayKpi\<close>. When \<open>kpi.longest\<close> is an object with the fields
  \<open>duration\<close>, \<open>from_name\<close> and \<open>to_name\<close>, the \<open>longest\<close> entry is replaced by the text
  "duration (from_name \<rightarrow> to_name)", made of the texts of the three fields (a field
  that is a string is its own text), and every other entry is as in \<open>kpi\<close>. When
  \<open>kpi.longest\<close> is a scalar, \<open>displayKpi\<close> is the copy, the \<open>longest\<close> entry untouched;
  when \<open>kpi\<close> has no \<open>longest\<close>, \<open>displayKpi\<close> is the copy as well. Whatever \<open>longest\<close>
  is, a builder that completes has copied every entry of \<open>kpi\<close> other than \<open>longest\<close>.
\<close>

theorem AnalysisDialog_displayKpi_longest:
  assumes "kpi data = Obj kvs"
  shows "(map_of kvs ''longest'' = Some (Obj l) \<and>
          map_of l ''duration'' = Some dv \<and> ToString rt dv = Inr d \<and>
          map_of l ''from_name'' = Some fv \<and> ToString rt fv = Inr f \<and>
          map_of l ''to_name'' = Some tv \<and> ToString rt tv = Inr t \<longrightarrow>
          (\<exists>fields. AnalysisDialog_constructor rt data = Inr fields \<and>
             map fst (displayKpi fields) = map fst kvs \<and>
             map_of (displayKpi fields) =
               (map_of kvs)(''longest'' \<mapsto> Str (d @ '' ('' @ f @ '' '' @ arrow @ '' '' @ t @ '')'')))) \<and>
         (map_of kvs ''longest'' = Some v \<and> \<not> typeof_object v \<longrightarrow>
          (\<exists>fields. AnalysisDialog_constructor rt data = Inr fields \<and>
             displayKpi fields = kvs \<and> map_of (displayKpi fields) ''longest'' = Some v)) \<and>
         (map_of kvs ''longest'' = None \<longrightarrow>
          (\<exists>fields. AnalysisDialog_constructor rt data = Inr fields \<and>
             displayKpi fields = kvs)) \<and>
         (\<forall>fields. AnalysisDialog_constructor rt data = Inr fields \<longrightarrow>
            map fst kvs = take (length kvs) (map fst (displayKpi fields)) \<and>
            (\<forall>k. k \<noteq> ''longest'' \<longrightarrow> map_of (displayKpi fields) k = map_of kvs k))"
proof (intro conjI impI allI)
  assume a: "map_of kvs ''longest'' = Some (Obj l) \<and>
          map_of l ''duration'' = Some dv \<and> ToString rt dv = Inr d \<and>
          map_of l ''from_name'' = Some fv \<and> ToString rt fv = Inr f \<and>
          map_of l ''to_name'' = Some tv \<and> ToString rt tv = Inr t"
  let ?text = "d @ '' ('' @ f @ '' '' @ arrow @ '' '' @ t @ '')''"
  from a have lt: "longest_text rt (Obj l) = Inr ?text"
    by (blast intro: longest_text_fields)
  have c: "AnalysisDialog_constructor rt data =
        Inr \<lparr>displayKpi = AList.update ''longest'' (Str ?text) kvs,
             summaryHtml = marked_parse rt (summary data)\<rparr>"
    using assms a lt by (simp add: AnalysisDialog_constructor_def bind_result_def)
  from a have "''longest'' \<in> fst ` set kvs"
    by (metis domI dom_map_of_conv_image_fst)
  then have "map fst (AList.update ''longest'' (Str ?text) kvs) = map fst kvs"
    by (simp add: update_keys)
  then show "\<exists>fields. AnalysisDialog_constructor rt data = Inr fields \<and>
             map fst (displayKpi fields) = map fst kvs \<and>
             map_of (displayKpi fields) = (map_of kvs)(''longest'' \<mapsto> Str ?text)"
    using c by (simp add: update_conv')
next
  assume a: "map_of kvs ''longest'' = Some v \<and> \<not> typeof_object v"
  then have "AnalysisDialog_constructor rt data =
        Inr \<lparr>displayKpi = kvs, summaryHtml = marked_parse rt (summary data)\<rparr>"
    using assms by (simp add: AnalysisDialog_constructor_def bind_result_def)
  with a show "\<exists>fields. AnalysisDialog_constructor rt data = Inr fields \<and>
             displayKpi fields = kvs \<and> map_of (displayKpi fields) ''longest'' = Some v"
    by simp
next
  assume "map_of kvs ''longest'' = None"
  then have "AnalysisDialog_constructor rt data =
        Inr \<lparr>displayKpi = kvs, summaryHtml = marked_parse rt (summary data)\<rparr>"
    using assms by (simp add: AnalysisDialog_constructor_def bind_result_def)
  then show "\<exists>fields. AnalysisDialog_constructor rt data = Inr fields \<and> displayKpi fields = kvs"
    by simp
next
  fix fields
  assume "AnalysisDialog_constructor rt data = Inr fields"
  then show "map fst kvs = take (length kvs) (map fst (displayKpi fields))"
    using assms by (rule constructor_copies [THEN conjunct1])
next
  fix fields k
  assume "AnalysisDialog_constructor rt data = Inr fields" and "k \<noteq> ''longest''"
  then show "map_of (displayKpi fields) k = map_of kvs k"
    using assms constructor_copies by blast
qed

theorem AnalysisDialog_displayKpi_longest_witness:
  "(\<exists>fields.
      AnalysisDialog_constructor example_runtime
        \<lparr>kpi = Obj [(''total'', Num 1211),
                    (''longest'', Obj [(''duration'', Str ''0 days 00:29:46''),
                                       (''from_name'', Str ''A''), (''to_name'', Str ''B'')])],
         summary = []\<rparr> = Inr fields \<and>
      map_of (displayKpi fields) ''longest'' = Some (Str (''0 days 00:29:46 (A '' @ arrow @ '' B)'')) \<and>
      map_of (displayKpi fields) ''total'' = Some (Num 1211)) \<and>
   (\<exists>fields.
      AnalysisDialog_constructor example_runtime
        \<lparr>kpi = Obj [(''total'', Num 1211), (''longest'', Num 42)], summary = []\<rparr> = Inr fields \<and>
      map_of (displayKpi fields) ''longest'' = Some (Num 42)) \<and>
   (\<exists>fields.
      AnalysisDialog_constructor example_runtime
        \<lparr>kpi = Obj [(''total'', Num 1211), (''answered_pct'', Num 82)], summary = []\<rparr> =
        Inr fields \<and>
      displayKpi fields = [(''total'', Num 1211), (''answered_pct'', Num 82)])"
proof -
  let ?l = "[(''duration'', Str ''0 days 00:29:46''), (''from_name'', Str ''A''), (''to_name'', Str ''B'')]"
  let ?k1 = "[(''total'', Num 1211), (''longest'', Obj ?l)]"
  let ?k2 = "[(''total'', Num 1211), (''longest'', Num 42)]"
  have k1: "kpi \<lparr>kpi = Obj ?k1, summary = []\<rparr> = Obj ?k1" by simp
  have k2: "kpi \<lparr>kpi = Obj ?k2, summary = []\<rparr> = Obj ?k2" by simp
  have h1: "map_of ?k1 ''longest'' = Some (Obj ?l) \<and>
            map_of ?l ''duration'' = Some (Str ''0 days 00:29:46'') \<and>
            ToString example_runtime (Str ''0 days 00:29:46'') = Inr ''0 days 00:29:46'' \<and>
            map_of ?l ''from_name'' = Some (Str ''A'') \<and>
            ToString example_runtime (Str ''A'') = Inr ''A'' \<and>
            map_of ?l ''to_name'' = Some (Str ''B'') \<and>
            ToString example_runtime (Str ''B'') = Inr ''B''" by simp
  have h2: "map_of ?k2 ''longest'' = Some (Num 42) \<and> \<not> typeof_object (Num 42)" by simp
  from AnalysisDialog_displayKpi_longest [OF k1, where rt = example_runtime and l = ?l
      and dv = "Str ''0 days 00:29:46''" and fv = "Str ''A''" and tv = "Str ''B''"
      and d = "''0 days 00:29:46''" and f = "''A''" and t = "''B''"] h1
  obtain fields where f1: "AnalysisDialog_constructor example_runtime
        \<lparr>kpi = Obj ?k1, summary = []\<rparr> = Inr fields"
    "map_of (displayKpi fields) =
       (map_of ?k1)(''longest'' \<mapsto> Str (''0 days 00:29:46'' @ '' ('' @ ''A'' @ '' '' @ arrow @ '' '' @ ''B'' @ '')''))"
    by blast
  from f1(2) have "map_of (displayKpi fields) ''longest'' = Some (Str (''0 days 00:29:46 (A '' @ arrow @ '' B)''))"
    "map_of (displayKpi fields) ''total'' = Some (Num 1211)"
    by simp_all
  with f1(1) have a: "\<exists>fields.
      AnalysisDialog_constructor example_runtime \<lparr>kpi = Obj ?k1, summary = []\<rparr> = Inr fields \<and>
      map_of (displayKpi fields) ''longest'' = Some (Str (''0 days 00:29:46 (A '' @ arrow @ '' B)'')) \<and>
      map_of (displayKpi fields) ''total'' = Some (Num 1211)"
    by blast
  from AnalysisDialog_displayKpi_longest [OF k2, where rt = example_runtime and v = "Num 42"] h2
  have b: "\<exists>fields.
      AnalysisDialog_constructor example_runtime \<lparr>kpi = Obj ?k2, summary = []\<rparr> = Inr fields \<and>
      map_of (displayKpi fields) ''longest'' = Some (Num 42)"
    by blast
  let ?k3 = "[(''total'', Num 1211), (''answered_pct'', Num 82)]"
  have k3: "kpi \<lparr>kpi = Obj ?k3, summary = []\<rparr> = Obj ?k3" by simp
  have h3: "map_of ?k3 ''longest'' = None" by simp
  from AnalysisDialog_displayKpi_longest [OF k3, where rt = example_runtime] h3
  have c: "\<exists>fields.
      AnalysisDialog_constructor example_runtime \<lparr>kpi = Obj ?k3, summary = []\<rparr> = Inr fields \<and>
      displayKpi fields = ?k3"
    by blast
  from a b c show ?thesis by blast
qed

text \<open>
  Claim C9. For a call report whose \<open>kpi.longest\<close> is \<open>null\<close>, the builder completes
  without error and the \<open>longest\<close> entry of \<open>displayKpi\<close> is \<open>null\<close>: \<open>typeof null\<close> is
  \<open>'object'\<close> but \<open>null\<close> is falsy, so the formatting branch is not taken.
\<close>

theorem AnalysisDialog_longest_null:
  assumes "kpi data = Obj kvs" and "map_of kvs ''longest'' = Some Null"
  shows "typeof_object Null \<and> \<not> truthy Null \<and>
         AnalysisDialog_constructor rt data =
           Inr \<lparr>displayKpi = kvs, summaryHtml = marked_parse rt (summary data)\<rparr> \<and>
         (\<forall>fields. AnalysisDialog_constructor rt data = Inr fields \<longrightarrow>
            map_of (displayKpi fields) ''longest'' = Some Null)"
  using assms by (auto simp: AnalysisDialog_constructor_def bind_result_def)

theorem AnalysisDialog_longest_null_witness:
  "AnalysisDialog_constructor example_runtime
     \<lparr>kpi = Obj [(''total'', Num 1211), (''longest'', Null)], summary = ''none''\<rparr> =
   Inr \<lparr>displayKpi = [(''total'', Num 1211), (''longest'', Null)], summaryHtml = ''none''\<rparr>"
proof -
  let ?k = "[(''total'', Num 1211), (''longest'', Null)]"
  have k: "kpi \<lparr>kpi = Obj ?k, summary = ''none''\<rparr> = Obj ?k" by simp
  have l: "map_of ?k ''longest'' = Some Null" by simp
  have "marked_parse example_runtime ''none'' = ''none''"
    by (simp add: example_runtime_def)
  with AnalysisDialog_longest_null [OF k l, of example_runtime] show ?thesis by simp
qed

section \<open>Properties of the queue-report dialog\<close>

lemma digit_char_is_digit: "d < 10 \<Longrightarrow> is_digit (digit_char d)"
proof -
  assume "d < 10"
  then have "d \<in> {0, 1, 2, 3, 4, 5, 6, 7, 8, 9}" by auto
  then show ?thesis by (auto simp: digit_char_def is_digit_def)
qed

lemma nat_digits_nonempty: "nat_digits n \<noteq> []"
  by (subst nat_digits.simps) simp

lemma all_digits_nat_digits: "all_digits (nat_digits n)"
proof (induction n rule: nat_digits.induct)
  case (1 n)
  show ?case
  proof (cases "n < 10")
    case True
    then show ?thesis
      by (subst nat_digits.simps) (simp add: all_digits_def digit_char_is_digit)
  next
    case False
    with "1" have "all_digits (nat_digits (n div 10))" by simp
    with False show ?thesis
      by (subst nat_digits.simps) (simp add: all_digits_def digit_char_is_digit)
  qed
qed

lemma point_before_last:
  assumes "all_digits m" and "2 \<le> length m"
  shows "\<exists>whole d. take (length m - 1) m @ ''.'' @ drop (length m - 1) m = whole @ ''.'' @ [d] \<and>
           whole \<noteq> [] \<and> all_digits whole \<and> is_digit d"
proof -
  from assms(2) obtain ys y where m: "m = ys @ [y]"
    by (cases m rule: rev_cases) auto
  with assms have "ys \<noteq> []" "all_digits ys" "is_digit y"
    by (auto simp: all_digits_def)
  moreover have "take (length m - 1) m @ ''.'' @ drop (length m - 1) m = ys @ ''.'' @ [y]"
    by (simp add: m)
  ultimately show ?thesis by blast
qed

lemma toFixed_one_decimal:
  assumes "\<bar>x\<bar> < 10 ^ 21"
  shows "one_decimal (toFixed rt 1 x)"
proof -
  define n where "n = nat \<lfloor>\<bar>x\<bar> * 10 ^ 1 + 1 / 2\<rfloor>"
  define m where "m = (if length (nat_digits n) \<le> 1
                       then replicate (1 + 1 - length (nat_digits n)) (CHR ''0'') @ nat_digits n
                       else nat_digits n)"
  have "all_digits m"
    using all_digits_nat_digits [of n]
    by (auto simp: m_def all_digits_def zero_is_digit list_all_iff)
  moreover have "2 \<le> length m"
    by (simp add: m_def)
  ultimately obtain whole d where
    w: "take (length m - 1) m @ ''.'' @ drop (length m - 1) m = whole @ ''.'' @ [d]"
      "whole \<noteq> []" "all_digits whole" "is_digit d"
    using point_before_last by blast
  have "toFixed rt 1 x =
          (if x < 0 then ''-'' else []) @ take (length m - 1) m @ ''.'' @ drop (length m - 1) m"
    using assms by (simp add: toFixed_def Let_def m_def n_def)
  with w(1) have "toFixed rt 1 x = whole @ ''.'' @ [d] \<or> toFixed rt 1 x = ''-'' @ whole @ ''.'' @ [d]"
    by (cases "x < 0") simp_all
  with w(2-4) show ?thesis unfolding one_decimal_def by blast
qed

lemma one_decimal_has_point: "one_decimal t \<Longrightarrow> CHR ''.'' \<in> set t"
  by (auto simp: one_decimal_def)

text \<open>
  Claim C3, as amended. The queue-report builder produces a \<open>displayKpi\<close> of exactly the
  eight entries Total Offered, Total Answered, Total Abandoned, Answer Rate, Abandonment
  Rate, Avg Wait Time, Max Wait Time and Avg Handle Time, in this order; the counts are
  passed through, the two rates end in \<open>%\<close>, the three times end in \<open>s\<close>, and Avg
  Handle Time is \<open>toFixed(1)\<close> of the number, which is exactly one decimal place when
  the magnitude of the number is below \<open>10^21\<close>.
\<close>

theorem QueueDialog_displayKpi:
  "map fst (displayKpi (QueueDialog_constructor rt data)) =
     [''Total Offered'', ''Total Answered'', ''Total Abandoned'', ''Answer Rate'',
      ''Abandonment Rate'', ''Avg Wait Time'', ''Max Wait Time'', ''Avg Handle Time''] \<and>
   map snd (displayKpi (QueueDialog_constructor rt data)) =
     [total_offered (queue_metrics data),
      total_answered (queue_metrics data),
      total_abandoned (queue_metrics data),
      Str (Number_toString rt (answer_rate (queue_metrics data)) @ ''%''),
      Str (Number_toString rt (abandonment_rate (queue_metrics data)) @ ''%''),
      Str (Number_toString rt (avg_wait_time_sec (queue_metrics data)) @ ''s''),
      Str (Number_toString rt (max_wait_time_sec (queue_metrics data)) @ ''s''),
      Str (toFixed rt 1 (avg_handle_time_sec (queue_metrics data)) @ ''s'')] \<and>
   (\<bar>avg_handle_time_sec (queue_metrics data)\<bar> < 10 ^ 21 \<longrightarrow>
      one_decimal (toFixed rt 1 (avg_handle_time_sec (queue_metrics data))))"
proof (intro conjI impI)
  assume "\<bar>avg_handle_time_sec (queue_metrics data)\<bar> < 10 ^ 21"
  then show "one_decimal (toFixed rt 1 (avg_handle_time_sec (queue_metrics data)))"
    by (rule toFixed_one_decimal)
qed (simp_all add: QueueDialog_constructor_def Let_def)

theorem QueueDialog_displayKpi_witness:
  "\<bar>avg_handle_time_sec (queue_metrics (example_report 17 [] [] []))\<bar> < 10 ^ 21 \<and>
   map_of (displayKpi (QueueDialog_constructor example_runtime (example_report 17 [] [] [])))
     ''Avg Handle Time'' = Some (Str ''17.0s'') \<and>
   one_decimal ''17.0''"
proof -
  have v: "avg_handle_time_sec (queue_metrics (example_report 17 [] [] [])) = 17"
    by (simp add: example_report_def)
  have f: "toFixed example_runtime 1 17 = ''17.0''"
    by code_simp
  have b: "\<bar>17 :: rat\<bar> < 10 ^ 21" by simp
  note t = QueueDialog_displayKpi [of example_runtime "example_report 17 [] [] []", unfolded v]
  from t b have "one_decimal (toFixed example_runtime 1 17)" by blast
  then have od: "one_decimal ''17.0''" by (simp only: f)
  have "map_of (displayKpi (QueueDialog_constructor example_runtime (example_report 17 [] [] [])))
     ''Avg Handle Time'' = Some (Str (toFixed example_runtime 1 17 @ ''s''))"
    by (simp add: QueueDialog_constructor_def Let_def v)
  then have e: "map_of (displayKpi (QueueDialog_constructor example_runtime (example_report 17 [] [] [])))
     ''Avg Handle Time'' = Some (Str ''17.0s'')"
    by (simp only: f append.simps)
  from b od e show ?thesis by (simp only: v simp_thms)
qed

text \<open>
  Claim C3 as first stated has Avg Handle Time at exactly one decimal place for every
  report. At \<open>avg_handle_time_sec = 10^21\<close> the entry is \<open>1e+21s\<close>, with no decimal
  place at all.
\<close>

theorem QueueDialog_displayKpi_counterexample:
  "map_of (displayKpi (QueueDialog_constructor example_runtime (example_report (10 ^ 21) [] [] [])))
     ''Avg Handle Time'' = Some (Str ''1e+21s'') \<and>
   \<not> one_decimal ''1e+21''"
proof -
  have f: "toFixed example_runtime 1 (10 ^ 21) = ''1e+21''"
    by (simp add: toFixed_def example_runtime_def example_Number_toString_def)
  have "map_of (displayKpi (QueueDialog_constructor example_runtime (example_report (10 ^ 21) [] [] [])))
     ''Avg Handle Time'' = Some (Str (toFixed example_runtime 1 (10 ^ 21) @ ''s''))"
    by (simp add: QueueDialog_constructor_def Let_def example_report_def)
  then have "map_of (displayKpi (QueueDialog_constructor example_runtime (example_report (10 ^ 21) [] [] [])))
     ''Avg Handle Time'' = Some (Str ''1e+21s'')"
    by (simp only: f append.simps)
  moreover have "\<not> one_decimal ''1e+21''"
    using one_decimal_has_point [of "''1e+21''"] by auto
  ultimately show ?thesis by (rule conjI)
qed

section \<open>Properties of the hourly chart\<close>

lemma sort_insert_HOUR:
  "sort_insert (\<lambda>a b. HOUR a - HOUR b) x ys = insort_key HOUR x ys"
  by (induction ys) simp_all

lemma Array_sort_HOUR: "Array_sort (\<lambda>a b. HOUR a - HOUR b) xs = sort_key HOUR xs"
  unfolding Array_sort_def sort_key_def
  by (induction xs) (simp_all add: sort_insert_HOUR)

lemma hourlyData_sort_key: "hourlyData data = sort_key HOUR (service_trends data)"
  by (simp add: hourlyData_def Array_sort_HOUR)

lemma hourlyData_unchanged_iff:
  "hourlyData data = service_trends data \<longleftrightarrow> sorted (map HOUR (service_trends data))"
proof
  assume "hourlyData data = service_trends data"
  then have "sort_key HOUR (service_trends data) = service_trends data"
    by (simp add: hourlyData_sort_key)
  then show "sorted (map HOUR (service_trends data))"
    by (metis sorted_sort_key)
next
  assume "sorted (map HOUR (service_trends data))"
  then show "hourlyData data = service_trends data"
    by (simp add: hourlyData_sort_key sort_key_id_if_sorted)
qed

lemma hourlyData_example:
  "hourlyData (example_report 17 [] []
      [example_bucket 14 5 20, example_bucket 9 3 0, example_bucket 12 7 40]) =
   [example_bucket 9 3 0, example_bucket 12 7 40, example_bucket 14 5 20]"
  by (simp add: hourlyData_sort_key example_report_def example_bucket_def)

text \<open>
  Claim C8. For every sequence of hour buckets, the hourly series of the chart is the
  sequence sorted ascending by \<open>HOUR\<close>: it is in ascending order of \<open>HOUR\<close>, it holds the
  same buckets, and buckets of one hour keep their order (the sort is stable). The labels
  (the hour followed by \<open>:00\<close>) and the two series, \<open>TOTAL_OFFERED\<close> and
  \<open>ABANDONMENT_RATE\<close>, are read off this ordered sequence.
\<close>

theorem createHourlyChart_series:
  "sorted (map HOUR (hourlyData data)) \<and>
   mset (hourlyData data) = mset (service_trends data) \<and>
   (\<forall>k. filter (\<lambda>h. HOUR h = k) (hourlyData data) =
          filter (\<lambda>h. HOUR h = k) (service_trends data)) \<and>
   snd (createHourlyChart True rt data) =
     Some \<lparr>labels = map (\<lambda>h. Number_toString rt (HOUR h) @ '':00'') (hourlyData data),
           datasets =
             [\<lparr>dataset_label = ''Total Calls'',
               dataset_data = map TOTAL_OFFERED (hourlyData data)\<rparr>,
              \<lparr>dataset_label = ''Abandonment Rate (%)'',
               dataset_data = map ABANDONMENT_RATE (hourlyData data)\<rparr>]\<rparr>"
proof (intro conjI allI)
  show "sorted (map HOUR (hourlyData data))"
    by (simp add: hourlyData_sort_key)
  show "mset (hourlyData data) = mset (service_trends data)"
    by (simp add: hourlyData_sort_key)
  show "filter (\<lambda>h. HOUR h = k) (hourlyData data) =
        filter (\<lambda>h. HOUR h = k) (service_trends data)" for k
    by (simp add: hourlyData_sort_key sort_key_stable)
qed (simp add: createHourlyChart_def Let_def)

theorem createHourlyChart_series_witness:
  "map HOUR (hourlyData (example_report 17 [] []
      [example_bucket 14 5 20, example_bucket 9 3 0, example_bucket 12 7 40])) = [9, 12, 14] \<and>
   snd (createHourlyChart True example_runtime (example_report 17 [] []
      [example_bucket 14 5 20, example_bucket 9 3 0, example_bucket 12 7 40])) =
     Some \<lparr>labels = [''9:00'', ''12:00'', ''14:00''],
           datasets = [\<lparr>dataset_label = ''Total Calls'', dataset_data = [3, 7, 5]\<rparr>,
                       \<lparr>dataset_label = ''Abandonment Rate (%)'', dataset_data = [0, 40, 20]\<rparr>]\<rparr>"
proof -
  let ?r = "example_report 17 [] []
      [example_bucket 14 5 20, example_bucket 9 3 0, example_bucket 12 7 40]"
  have n: "Number_toString example_runtime 9 = ''9''"
    "Number_toString example_runtime 12 = ''12''"
    "Number_toString example_runtime 14 = ''14''"
    by code_simp+
  from createHourlyChart_series [of ?r example_runtime]
  have "snd (createHourlyChart True example_runtime ?r) =
     Some \<lparr>labels = map (\<lambda>h. Number_toString example_runtime (HOUR h) @ '':00'') (hourlyData ?r),
           datasets =
             [\<lparr>dataset_label = ''Total Calls'',
               dataset_data = map TOTAL_OFFERED (hourlyData ?r)\<rparr>,
              \<lparr>dataset_label = ''Abandonment Rate (%)'',
               dataset_data = map ABANDONMENT_RATE (hourlyData ?r)\<rparr>]\<rparr>"
    by blast
  then show ?thesis
    by (simp add: hourlyData_example) (simp add: example_bucket_def n)
qed

text \<open>
  Claim C1, as amended. Producing the hourly series sorts the \<open>service_trends\<close> array of
  the report in place: after the call the report's own array is in ascending order of
  \<open>HOUR\<close>, holds the same buckets, and keeps the buckets of one hour in their order (the
  stable hour-ascending ordering of the input); it is the series the chart is drawn from,
  and every other field of the report is as before. The report is left as it was exactly
  when its array was already in ascending order of \<open>HOUR\<close>; without a drawing context
  nothing is done.
\<close>

theorem createHourlyChart_sorts_in_place:
  "sorted (map HOUR (service_trends (fst (createHourlyChart True rt data)))) \<and>
   mset (service_trends (fst (createHourlyChart True rt data))) = mset (service_trends data) \<and>
   (\<forall>k. filter (\<lambda>h. HOUR h = k) (service_trends (fst (createHourlyChart True rt data))) =
          filter (\<lambda>h. HOUR h = k) (service_trends data)) \<and>
   service_trends (fst (createHourlyChart True rt data)) = hourlyData data \<and>
   map_option labels (snd (createHourlyChart True rt data)) =
     Some (map (\<lambda>h. Number_toString rt (HOUR h) @ '':00'')
             (service_trends (fst (createHourlyChart True rt data)))) \<and>
   queue_metrics (fst (createHourlyChart True rt data)) = queue_metrics data \<and>
   queue_summary (fst (createHourlyChart True rt data)) = queue_summary data \<and>
   (fst (createHourlyChart True rt data) = data \<longleftrightarrow>
      sorted (map HOUR (service_trends data))) \<and>
   createHourlyChart False rt data = (data, None)"
proof -
  have after: "service_trends (fst (createHourlyChart True rt data)) =
      sort_key HOUR (service_trends data)"
    by (simp add: createHourlyChart_def Let_def hourlyData_sort_key)
  have ordered: "sorted (map HOUR (service_trends (fst (createHourlyChart True rt data))))"
    unfolding after by (rule sorted_sort_key)
  have same: "mset (service_trends (fst (createHourlyChart True rt data))) =
      mset (service_trends data)"
    unfolding after by (rule mset_sort)
  have stable: "filter (\<lambda>h. HOUR h = k) (service_trends (fst (createHourlyChart True rt data))) =
      filter (\<lambda>h. HOUR h = k) (service_trends data)" for k
    unfolding after by (rule sort_key_stable)
  have "data\<lparr>service_trends := hourlyData data\<rparr> = data \<longleftrightarrow>
        hourlyData data = service_trends data"
    by (cases data) auto
  then have unchanged: "fst (createHourlyChart True rt data) = data \<longleftrightarrow>
      sorted (map HOUR (service_trends data))"
    by (simp add: createHourlyChart_def Let_def hourlyData_unchanged_iff)
  have rest: "service_trends (fst (createHourlyChart True rt data)) = hourlyData data"
    "map_option labels (snd (createHourlyChart True rt data)) =
       Some (map (\<lambda>h. Number_toString rt (HOUR h) @ '':00'')
               (service_trends (fst (createHourlyChart True rt data))))"
    "queue_metrics (fst (createHourlyChart True rt data)) = queue_metrics data"
    "queue_summary (fst (createHourlyChart True rt data)) = queue_summary data"
    "createHourlyChart False rt data = (data, None)"
    by (simp_all add: createHourlyChart_def Let_def)
  from ordered same stable rest unchanged show ?thesis by blast
qed

theorem createHourlyChart_sorts_in_place_witness:
  "\<not> sorted (map HOUR (service_trends (example_report 17 [] []
      [example_bucket 12 7 40, example_bucket 14 5 20, example_bucket 9 3 0,
       example_bucket 12 1 0]))) \<and>
   service_trends (fst (createHourlyChart True example_runtime (example_report 17 [] []
      [example_bucket 12 7 40, example_bucket 14 5 20, example_bucket 9 3 0,
       example_bucket 12 1 0]))) =
     [example_bucket 9 3 0, example_bucket 12 7 40, example_bucket 12 1 0,
      example_bucket 14 5 20] \<and>
   sorted (map HOUR (service_trends (fst (createHourlyChart True example_runtime
      (example_report 17 [] []
        [example_bucket 12 7 40, example_bucket 14 5 20, example_bucket 9 3 0,
         example_bucket 12 1 0]))))) \<and>
   fst (createHourlyChart True example_runtime (example_report 17 [] []
      [example_bucket 12 7 40, example_bucket 14 5 20, example_bucket 9 3 0,
       example_bucket 12 1 0])) \<noteq>
     example_report 17 [] []
      [example_bucket 12 7 40, example_bucket 14 5 20, example_bucket 9 3 0,
       example_bucket 12 1 0] \<and>
   sorted (map HOUR (service_trends (example_report 17 [] []
      [example_bucket 9 3 0, example_bucket 12 7 40]))) \<and>
   fst (createHourlyChart True example_runtime (example_report 17 [] []
      [example_bucket 9 3 0, example_bucket 12 7 40])) =
   example_report 17 [] [] [example_bucket 9 3 0, example_bucket 12 7 40]"
proof -
  let ?u = "example_report 17 [] []
      [example_bucket 12 7 40, example_bucket 14 5 20, example_bucket 9 3 0,
       example_bucket 12 1 0]"
  let ?r = "example_report 17 [] [] [example_bucket 9 3 0, example_bucket 12 7 40]"
  note unchanged_iff = conjunct2 [THEN conjunct2, THEN conjunct2, THEN conjunct2,
      THEN conjunct2, THEN conjunct2, THEN conjunct2, THEN conjunct1]
  note U = createHourlyChart_sorts_in_place [of example_runtime ?u]
  note R = createHourlyChart_sorts_in_place [of example_runtime ?r]
  have nu: "\<not> sorted (map HOUR (service_trends ?u))"
    by (simp add: example_report_def example_bucket_def)
  have "hourlyData ?u =
      [example_bucket 9 3 0, example_bucket 12 7 40, example_bucket 12 1 0,
       example_bucket 14 5 20]"
    by (simp add: hourlyData_sort_key example_report_def example_bucket_def)
  then have after: "service_trends (fst (createHourlyChart True example_runtime ?u)) =
      [example_bucket 9 3 0, example_bucket 12 7 40, example_bucket 12 1 0,
       example_bucket 14 5 20]"
    by (simp only: U [THEN conjunct2, THEN conjunct2, THEN conjunct2, THEN conjunct1])
  have ordered: "sorted (map HOUR (service_trends (fst (createHourlyChart True example_runtime ?u))))"
    by (rule U [THEN conjunct1])
  have changed: "fst (createHourlyChart True example_runtime ?u) \<noteq> ?u"
    using nu U [THEN unchanged_iff] by blast
  have s: "sorted (map HOUR (service_trends ?r))"
    by (simp add: example_report_def example_bucket_def)
  have same: "fst (createHourlyChart True example_runtime ?r) = ?r"
    using s R [THEN unchanged_iff] by blast
  from nu after ordered changed s same show ?thesis by blast
qed

text \<open>
  Claim C1 as first stated has the input sequence unmodified. Given the buckets of the
  hours 14, 9, 12, the report's own array is in the order 9, 12, 14 after the call.
\<close>

theorem createHourlyChart_input_counterexample:
  "service_trends (example_report 17 [] []
      [example_bucket 14 5 20, example_bucket 9 3 0, example_bucket 12 7 40]) =
     [example_bucket 14 5 20, example_bucket 9 3 0, example_bucket 12 7 40] \<and>
   service_trends (fst (createHourlyChart True example_runtime (example_report 17 [] []
      [example_bucket 14 5 20, example_bucket 9 3 0, example_bucket 12 7 40]))) =
     [example_bucket 9 3 0, example_bucket 12 7 40, example_bucket 14 5 20] \<and>
   fst (createHourlyChart True example_runtime (example_report 17 [] []
      [example_bucket 14 5 20, example_bucket 9 3 0, example_bucket 12 7 40])) \<noteq>
   example_report 17 [] []
      [example_bucket 14 5 20, example_bucket 9 3 0, example_bucket 12 7 40]"
proof -
  let ?r = "example_report 17 [] []
      [example_bucket 14 5 20, example_bucket 9 3 0, example_bucket 12 7 40]"
  have a: "service_trends ?r =
      [example_bucket 14 5 20, example_bucket 9 3 0, example_bucket 12 7 40]"
    by (simp add: example_report_def)
  have b: "service_trends (fst (createHourlyChart True example_runtime ?r)) =
      [example_bucket 9 3 0, example_bucket 12 7 40, example_bucket 14 5 20]"
    by (simp add: createHourlyChart_def Let_def hourlyData_example)
  have "example_bucket 14 5 20 \<noteq> example_bucket 9 3 0"
    by (simp add: example_bucket_def)
  with a b have "service_trends (fst (createHourlyChart True example_runtime ?r)) \<noteq>
      service_trends ?r"
    by simp
  then have "fst (createHourlyChart True example_runtime ?r) \<noteq> ?r" by auto
  with a b show ?thesis by blast
qed

section \<open>Properties of the calendar\<close>

lemma radix:
  fixes e :: int
  assumes "e * n + r = e' * n + r'" "0 \<le> r" "r < n" "0 \<le> r'" "r' < n"
  shows "e = e' \<and> r = r'"
proof -
  have "(n * e + r) div n = e" "(n * e + r) mod n = r"
    using assms(2,3) by (auto intro: int_div_pos_eq int_mod_pos_eq)
  moreover have "(n * e' + r') div n = e'" "(n * e' + r') mod n = r'"
    using assms(4,5) by (auto intro: int_div_pos_eq int_mod_pos_eq)
  moreover have "n * e + r = n * e' + r'" using assms(1) by (simp add: mult.commute)
  ultimately show ?thesis by metis
qed

lemma century_range:
  fixes doe :: int
  assumes "0 \<le> doe" "doe < 146097"
  shows "0 \<le> doe - min 3 (doe div 36524) * 36524" "doe - min 3 (doe div 36524) * 36524 \<le> 36524"
  using assms by (auto simp: min_def)

lemma doy_range:
  fixes r2 :: int
  assumes "0 \<le> r2" "r2 \<le> 1460"
  shows "0 \<le> r2 - min 3 (r2 div 365) * 365" "r2 - min 3 (r2 div 365) * 365 \<le> 365"
  using assms by (auto simp: min_def) 

lemma mp_range:
  fixes doy :: int
  assumes "0 \<le> doy" "doy \<le> 365"
  shows "0 \<le> (5 * doy + 2) div 153" "(5 * doy + 2) div 153 \<le> 11"
  using assms by auto

lemma dom_range:
  fixes doy :: int
  assumes "0 \<le> doy" "doy \<le> 365"
  shows "1 \<le> doy - (153 * ((5 * doy + 2) div 153) + 2) div 5 + 1"
    and "doy - (153 * ((5 * doy + 2) div 153) + 2) div 5 + 1 \<le> 31"
proof -
  define mp where "mp = (5 * doy + 2) div 153"
  define r where "r = (5 * doy + 2) mod 153"
  define x where "x = (153 * mp + 2) div 5"
  define s where "s = (153 * mp + 2) mod 5"
  have 1: "5 * doy + 2 = 153 * mp + r"
    unfolding mp_def r_def by (rule mult_div_mod_eq [symmetric])
  have 2: "0 \<le> r" "r < 153" unfolding r_def by simp_all
  have 3: "153 * mp + 2 = 5 * x + s"
    unfolding x_def s_def by (rule mult_div_mod_eq [symmetric])
  have 4: "0 \<le> s" "s < 5" unfolding s_def by simp_all
  show "1 \<le> doy - (153 * ((5 * doy + 2) div 153) + 2) div 5 + 1"
    and "doy - (153 * ((5 * doy + 2) div 153) + 2) div 5 + 1 \<le> 31"
    unfolding mp_def [symmetric] x_def [symmetric] using 1 2 3 4 by linarith+
qed


text \<open>The parts of a day number that \<open>civil_from_days\<close> computes, with their ranges.\<close>

lemma civil_from_days_parts:
  obtains era c q a doy mp where
    "d + 719468 = era * 146097 + c * 36524 + q * 1461 + a * 365 + doy"
    "0 \<le> c" "c \<le> 3" "0 \<le> q" "q \<le> 24" "0 \<le> a" "a \<le> 3" "0 \<le> doy" "doy \<le> 365"
    "mp = (5 * doy + 2) div 153"
    "civil_from_days d =
       (era * 400 + c * 100 + q * 4 + a + (if mp < 10 then 0 else 1),
        if mp < 10 then mp + 3 else mp - 9,
        doy - (153 * mp + 2) div 5 + 1)"
proof -
  define z where "z = d + 719468"
  define era where "era = z div 146097"
  define doe where "doe = z mod 146097"
  define c where "c = min 3 (doe div 36524)"
  define r1 where "r1 = doe - c * 36524"
  define q where "q = r1 div 1461"
  define r2 where "r2 = r1 mod 1461"
  define a where "a = min 3 (r2 div 365)"
  define doy where "doy = r2 - a * 365"
  define mp where "mp = (5 * doy + 2) div 153"
  have z: "z = era * 146097 + doe"
    unfolding era_def doe_def by simp
  have doe: "0 \<le> doe" "doe < 146097" unfolding doe_def by simp_all
  then have c: "0 \<le> c" "c \<le> 3" unfolding c_def by simp_all
  have r1: "0 \<le> r1" "r1 \<le> 36524"
    unfolding r1_def c_def using doe by (rule century_range)+
  have r1': "r1 = q * 1461 + r2" unfolding q_def r2_def by simp
  have r2: "0 \<le> r2" "r2 \<le> 1460" unfolding r2_def by simp_all
  have q: "0 \<le> q" "q \<le> 24" using r1 unfolding q_def by simp_all
  have a: "0 \<le> a" "a \<le> 3" using r2 unfolding a_def by simp_all
  have doy: "0 \<le> doy" "doy \<le> 365"
    unfolding doy_def a_def using r2 by (rule doy_range)+
  have sum: "d + 719468 = era * 146097 + c * 36524 + q * 1461 + a * 365 + doy"
    using z r1' unfolding z_def r1_def doy_def by simp
  have mp: "0 \<le> mp" "mp \<le> 11" unfolding mp_def using doy by (rule mp_range)+
  have "civil_from_days d =
       (era * 400 + c * 100 + q * 4 + a + (if mp < 10 then 0 else 1),
        if mp < 10 then mp + 3 else mp - 9,
        doy - (153 * mp + 2) div 5 + 1)"
    unfolding civil_from_days_def Let_def
      z_def [symmetric] era_def [symmetric] doe_def [symmetric] c_def [symmetric]
      r1_def [symmetric] q_def [symmetric] r2_def [symmetric] a_def [symmetric]
      doy_def [symmetric] mp_def [symmetric]
    using mp by auto
  with sum c q a doy show thesis
    using that [of era c q a doy mp] mp_def by blast
qed

lemma civil_from_days_range:
  assumes "civil_from_days n = (y, m, d)"
  shows "1 \<le> m" "m \<le> 12" "1 \<le> d" "d \<le> 31"
proof -
  obtain era c q a doy mp where p:
    "0 \<le> doy" "doy \<le> 365" "mp = (5 * doy + 2) div 153"
    "civil_from_days n =
       (era * 400 + c * 100 + q * 4 + a + (if mp < 10 then 0 else 1),
        if mp < 10 then mp + 3 else mp - 9,
        doy - (153 * mp + 2) div 5 + 1)"
    by (rule civil_from_days_parts [of n]) blast
  have mp: "0 \<le> mp" "mp \<le> 11" unfolding p(3) using p(1,2) by (rule mp_range)+
  from p(4) assms have m: "m = (if mp < 10 then mp + 3 else mp - 9)"
    and d: "d = doy - (153 * mp + 2) div 5 + 1" by simp_all
  show "1 \<le> m" "m \<le> 12" using mp unfolding m by auto
  show "1 \<le> d" "d \<le> 31" unfolding d p(3) using p(1,2) by (rule dom_range)+
qed

lemma civil_from_days_inj:
  assumes "civil_from_days n = civil_from_days n'"
  shows "n = n'"
proof -
  obtain era c q a doy mp where p:
    "n + 719468 = era * 146097 + c * 36524 + q * 1461 + a * 365 + doy"
    "0 \<le> c" "c \<le> 3" "0 \<le> q" "q \<le> 24" "0 \<le> a" "a \<le> 3" "0 \<le> doy" "doy \<le> 365"
    "mp = (5 * doy + 2) div 153"
    "civil_from_days n =
       (era * 400 + c * 100 + q * 4 + a + (if mp < 10 then 0 else 1),
        if mp < 10 then mp + 3 else mp - 9,
        doy - (153 * mp + 2) div 5 + 1)"
    by (rule civil_from_days_parts [of n]) blast
  obtain era' c' q' a' doy' mp' where p':
    "n' + 719468 = era' * 146097 + c' * 36524 + q' * 1461 + a' * 365 + doy'"
    "0 \<le> c'" "c' \<le> 3" "0 \<le> q'" "q' \<le> 24" "0 \<le> a'" "a' \<le> 3" "0 \<le> doy'" "doy' \<le> 365"
    "mp' = (5 * doy' + 2) div 153"
    "civil_from_days n' =
       (era' * 400 + c' * 100 + q' * 4 + a' + (if mp' < 10 then 0 else 1),
        if mp' < 10 then mp' + 3 else mp' - 9,
        doy' - (153 * mp' + 2) div 5 + 1)"
    by (rule civil_from_days_parts [of n']) blast
  have mp: "0 \<le> mp" "mp \<le> 11" unfolding p(10) using p(8,9) by (rule mp_range)+
  have mp': "0 \<le> mp'" "mp' \<le> 11" unfolding p'(10) using p'(8,9) by (rule mp_range)+
  from assms p(11) p'(11) have
    y: "era * 400 + c * 100 + q * 4 + a + (if mp < 10 then 0 else 1) =
        era' * 400 + c' * 100 + q' * 4 + a' + (if mp' < 10 then 0 else 1)"
    and m: "(if mp < 10 then mp + 3 else mp - 9) = (if mp' < 10 then mp' + 3 else mp' - 9)"
    and d: "doy - (153 * mp + 2) div 5 + 1 = doy' - (153 * mp' + 2) div 5 + 1"
    by simp_all
  from m mp mp' have mpe: "mp = mp'" by (auto split: if_splits)
  with d have doye: "doy = doy'" by simp
  from y mpe have "era * 400 + (c * 100 + q * 4 + a) = era' * 400 + (c' * 100 + q' * 4 + a')"
    by simp
  moreover have "0 \<le> c * 100 + q * 4 + a" "c * 100 + q * 4 + a < 400"
    "0 \<le> c' * 100 + q' * 4 + a'" "c' * 100 + q' * 4 + a' < 400"
    using p(2-7) p'(2-7) by linarith+
  ultimately have e: "era = era'" and 1: "c * 100 + (q * 4 + a) = c' * 100 + (q' * 4 + a')"
    using radix [of era 400 "c * 100 + q * 4 + a" era' "c' * 100 + q' * 4 + a'"] by simp_all
  have "0 \<le> q * 4 + a" "q * 4 + a < 100" "0 \<le> q' * 4 + a'" "q' * 4 + a' < 100"
    using p(4-7) p'(4-7) by linarith+
  with 1 have ce: "c = c'" and 2: "q * 4 + a = q' * 4 + a'"
    using radix [of c 100 "q * 4 + a" c' "q' * 4 + a'"] by simp_all
  have "a < 4" "a' < 4" using p(7) p'(7) by linarith+
  with 2 p(6) p'(6) have qe: "q = q'" and ae: "a = a'"
    using radix [of q 4 a q' a'] by simp_all
  from p(1) p'(1) e ce qe ae doye show "n = n'" by simp
qed

lemma digit_value_digit_char: "d < 10 \<Longrightarrow> digit_value (digit_char d) = d"
proof -
  assume "d < 10"
  then have "d \<in> {0, 1, 2, 3, 4, 5, 6, 7, 8, 9}" by auto
  then show ?thesis by (auto simp: digit_char_def digit_value_def)
qed

lemma digits_value_snoc: "digits_value (s @ [c]) = 10 * digits_value s + digit_value c"
  by (simp add: digits_value_def)

lemma digits_value_nat_digits: "digits_value (nat_digits n) = n"
proof (induction n rule: nat_digits.induct)
  case (1 n)
  show ?case
  proof (cases "n < 10")
    case True
    then show ?thesis
      by (subst nat_digits.simps) (simp add: digits_value_def digit_value_digit_char)
  next
    case False
    with "1" have "digits_value (nat_digits (n div 10)) = n div 10" by simp
    with False show ?thesis
      by (subst nat_digits.simps) (simp add: digits_value_snoc digit_value_digit_char)
  qed
qed

lemma digits_value_zeros: "digits_value (replicate k (CHR ''0'') @ s) = digits_value s"
proof -
  have "foldl (\<lambda>v c. 10 * v + digit_value c) 0 (replicate k (CHR ''0'')) = 0"
    by (induction k) (simp_all add: digit_value_def)
  then show ?thesis by (simp add: digits_value_def)
qed

lemma padded_digits_inj:
  assumes "padStart k (CHR ''0'') (nat_digits a) = padStart k (CHR ''0'') (nat_digits b)"
  shows "a = b"
proof -
  from assms have "digits_value (padStart k (CHR ''0'') (nat_digits a)) =
                   digits_value (padStart k (CHR ''0'') (nat_digits b))" by simp
  then show ?thesis
    by (simp add: padStart_def digits_value_zeros digits_value_nat_digits)
qed

lemma length_two_digits: "n < 100 \<Longrightarrow> length (padStart 2 c (nat_digits n)) = 2"
proof -
  assume n: "n < 100"
  show ?thesis
  proof (cases "n < 10")
    case True
    then show ?thesis by (subst nat_digits.simps) (simp add: padStart_def)
  next
    case False
    with n have "n div 10 < 10" by simp
    then have "nat_digits (n div 10) = [digit_char (n div 10)]"
      by (subst nat_digits.simps) simp
    with False show ?thesis by (subst nat_digits.simps) (simp add: padStart_def)
  qed
qed

lemma month_name_length: "i < 12 \<Longrightarrow> length (month_names ! i) = 3"
proof -
  assume "i < 12"
  moreover have "length month_names = 12" by (simp add: month_names_def)
  ultimately have "month_names ! i \<in> set month_names" by (metis nth_mem)
  moreover have "\<forall>s \<in> set month_names. length s = 3" by (simp add: month_names_def)
  ultimately show ?thesis by blast
qed

lemma day_name_length: "i < 7 \<Longrightarrow> length (day_names ! i) = 3"
proof -
  assume "i < 7"
  moreover have "length day_names = 7" by (simp add: day_names_def)
  ultimately have "day_names ! i \<in> set day_names" by (metis nth_mem)
  moreover have "\<forall>s \<in> set day_names. length s = 3" by (simp add: day_names_def)
  ultimately show ?thesis by blast
qed

lemma month_name_inj:
  assumes "i < 12" "j < 12" "month_names ! i = month_names ! j"
  shows "i = j"
proof -
  have "distinct month_names" by (simp add: month_names_def)
  moreover have "length month_names = 12" by (simp add: month_names_def)
  ultimately show ?thesis using assms by (simp add: nth_eq_iff_index_eq)
qed

lemma padded_digits_head:
  "\<exists>c cs. padStart k (CHR ''0'') (nat_digits n) = c # cs \<and> is_digit c"
proof -
  have "all_digits (padStart k (CHR ''0'') (nat_digits n))"
    by (rule all_digits_padStart) (rule all_digits_nat_digits)
  moreover have "padStart k (CHR ''0'') (nat_digits n) \<noteq> []"
    by (simp add: padStart_def nat_digits_nonempty)
  ultimately show ?thesis
    by (cases "padStart k (CHR ''0'') (nat_digits n)") (auto simp: all_digits_def)
qed

lemma year_text_inj:
  assumes "year_text y = year_text y'"
  shows "y = y'"
proof -
  have minus: "\<not> is_digit CHR ''-''" by (simp add: is_digit_def)
  obtain c cs where h: "padStart 4 (CHR ''0'') (nat_digits (nat \<bar>y\<bar>)) = c # cs" "is_digit c"
    using padded_digits_head by blast
  obtain c' cs' where h': "padStart 4 (CHR ''0'') (nat_digits (nat \<bar>y'\<bar>)) = c' # cs'" "is_digit c'"
    using padded_digits_head by blast
  have sign: "y \<ge> 0 \<longleftrightarrow> y' \<ge> 0"
    using assms h h' minus by (auto simp: year_text_def split: if_splits)
  with assms have "padStart 4 (CHR ''0'') (nat_digits (nat \<bar>y\<bar>)) =
                   padStart 4 (CHR ''0'') (nat_digits (nat \<bar>y'\<bar>))"
    by (auto simp: year_text_def split: if_splits)
  then have "nat \<bar>y\<bar> = nat \<bar>y'\<bar>" by (rule padded_digits_inj)
  with sign show ?thesis by linarith
qed


lemma WeekDay_index: "nat (WeekDay t) < 7"
proof -
  have "0 \<le> WeekDay t" "WeekDay t < 7" by (simp_all add: WeekDay_def)
  then show ?thesis by linarith
qed

text \<open>The text of \<open>toDateString\<close> determines the calendar date, and the date the text.\<close>

lemma toDateString_eq_iff:
  "toDateString rt (Some a) = toDateString rt (Some b) \<longleftrightarrow> local_date rt a = local_date rt b"
proof
  assume "local_date rt a = local_date rt b"
  moreover from this have "Day (a + LocalTZA rt a) = Day (b + LocalTZA rt b)"
    unfolding local_date_def by (rule civil_from_days_inj)
  then have "WeekDay (a + LocalTZA rt a) = WeekDay (b + LocalTZA rt b)"
    by (simp add: WeekDay_def)
  ultimately show "toDateString rt (Some a) = toDateString rt (Some b)"
    by (simp add: toDateString_def)
next
  assume e: "toDateString rt (Some a) = toDateString rt (Some b)"
  obtain y m d where A: "local_date rt a = (y, m, d)" by (cases "local_date rt a") auto
  obtain y' m' d' where B: "local_date rt b = (y', m', d')" by (cases "local_date rt b") auto
  from A have ra: "1 \<le> m" "m \<le> 12" "1 \<le> d" "d \<le> 31"
    unfolding local_date_def by (rule civil_from_days_range)+
  from B have rb: "1 \<le> m'" "m' \<le> 12" "1 \<le> d'" "d' \<le> 31"
    unfolding local_date_def by (rule civil_from_days_range)+
  let ?w = "day_names ! nat (WeekDay (a + LocalTZA rt a))"
  let ?w' = "day_names ! nat (WeekDay (b + LocalTZA rt b))"
  let ?m = "month_names ! nat (m - 1)" and ?m' = "month_names ! nat (m' - 1)"
  let ?d = "padStart 2 (CHR ''0'') (nat_digits (nat d))"
  let ?d' = "padStart 2 (CHR ''0'') (nat_digits (nat d'))"
  have lw: "length ?w = 3" "length ?w' = 3"
    by (rule day_name_length, rule WeekDay_index)+
  have lm: "length ?m = 3" "length ?m' = 3"
    using ra rb by (simp_all add: month_name_length)
  have ld: "length ?d = 2" "length ?d' = 2"
    using ra rb by (simp_all add: length_two_digits)
  from e A B have "?w @ ('' '' @ ?m @ '' '' @ ?d @ '' '' @ year_text y) =
                   ?w' @ ('' '' @ ?m' @ '' '' @ ?d' @ '' '' @ year_text y')"
    by (simp add: toDateString_def)
  with lw have "?m @ ('' '' @ ?d @ '' '' @ year_text y) = ?m' @ ('' '' @ ?d' @ '' '' @ year_text y')"
    by simp
  with lm have me: "?m = ?m'" and "?d @ ('' '' @ year_text y) = ?d' @ ('' '' @ year_text y')"
    by simp_all
  with ld have de: "?d = ?d'" and ye: "year_text y = year_text y'"
    by simp_all
  from me ra rb have "nat (m - 1) = nat (m' - 1)"
    by (intro month_name_inj) simp_all
  with ra rb have "m = m'" by linarith
  moreover from de have "nat d = nat d'" by (rule padded_digits_inj)
  with ra rb have "d = d'" by linarith
  moreover from ye have "y = y'" by (rule year_text_inj)
  ultimately show "local_date rt a = local_date rt b" by (simp add: A B)
qed

lemma short_date_shape:
  "\<exists>mon day year. mon \<in> set month_names \<and> all_digits day \<and> day \<noteq> [] \<and>
      all_digits year \<and> year \<noteq> [] \<and>
      short_date (local_date rt t) = mon @ '' '' @ day @ '', '' @ year"
proof -
  obtain y m d where A: "local_date rt t = (y, m, d)" by (cases "local_date rt t") auto
  then have "1 \<le> m" "m \<le> 12"
    unfolding local_date_def by (rule civil_from_days_range)+
  then have "nat (m - 1) < length month_names" by (simp add: month_names_def)
  then have "month_names ! nat (m - 1) \<in> set month_names" by (rule nth_mem)
  then show ?thesis
    unfolding A short_date_def
    using all_digits_nat_digits nat_digits_nonempty by fastforce
qed

section \<open>Properties of the date range\<close>

lemma Date_parse_example:
  "Date_parse example_runtime ''2025-07-09T13:30:00'' = Some 1752067800000"
  "Date_parse example_runtime ''2025-07-16T11:30:00'' = Some 1752665400000"
  "Date_parse example_runtime ''2025-07-09T08:00:00'' = Some 1752048000000"
  by (simp_all add: example_runtime_def example_Date_parse_def)

lemma local_date_example:
  "local_date example_runtime 1752067800000 = (2025, 7, 9)"
  "local_date example_runtime 1752665400000 = (2025, 7, 16)"
  "local_date example_runtime 1752048000000 = (2025, 7, 9)"
  by code_simp+

lemma short_date_example:
  "short_date (2025, 7, 9) = ''Jul 9, 2025''"
  "short_date (2025, 7, 16) = ''Jul 16, 2025''"
  by code_simp+

lemma example_datetimes:
  "datetime (peak_interval (queue_metrics (example_report h p w ts))) = p"
  "datetime (worst_abandon_interval (queue_metrics (example_report h p w ts))) = w"
  by (simp_all add: example_report_def example_interval_def)

text \<open>
  Claim C2. For every queue report whose two interval datetimes parse to valid
  timestamps, \<open>calculateDateRange\<close> takes the earlier one as the start and the later one
  as the end, formats each as month name, day, comma, year, and returns the single
  formatted date when both fall on the same calendar day (of local time), and otherwise
  the start, \<open>" - "\<close> and the end.
\<close>

theorem calculateDateRange_valid:
  assumes "Date_parse rt (datetime (peak_interval (queue_metrics data))) = Some p"
    and "Date_parse rt (datetime (worst_abandon_interval (queue_metrics data))) = Some w"
  shows "startDate rt data = Some (min p w) \<and>
         endDate rt data = Some (max p w) \<and>
         formatDate rt (startDate rt data) = short_date (local_date rt (min p w)) \<and>
         formatDate rt (endDate rt data) = short_date (local_date rt (max p w)) \<and>
         (\<exists>mon day year. mon \<in> set month_names \<and> all_digits day \<and> day \<noteq> [] \<and>
            all_digits year \<and> year \<noteq> [] \<and>
            formatDate rt (startDate rt data) = mon @ '' '' @ day @ '', '' @ year) \<and>
         (\<exists>mon day year. mon \<in> set month_names \<and> all_digits day \<and> day \<noteq> [] \<and>
            all_digits year \<and> year \<noteq> [] \<and>
            formatDate rt (endDate rt data) = mon @ '' '' @ day @ '', '' @ year) \<and>
         calculateDateRange rt data =
           (if local_date rt (min p w) = local_date rt (max p w)
            then formatDate rt (startDate rt data)
            else formatDate rt (startDate rt data) @ '' - '' @ formatDate rt (endDate rt data))"
proof -
  have s: "startDate rt data = Some (min p w)"
    using assms by (simp add: startDate_def peakDate_def worstDate_def Date_less_def min_def)
  have e: "endDate rt data = Some (max p w)"
    using assms by (auto simp: endDate_def peakDate_def worstDate_def Date_less_def max_def)
  have fs: "formatDate rt (startDate rt data) = short_date (local_date rt (min p w))"
    by (simp add: s formatDate_def toLocaleDateString_def)
  have fe: "formatDate rt (endDate rt data) = short_date (local_date rt (max p w))"
    by (simp add: e formatDate_def toLocaleDateString_def)
  have c: "calculateDateRange rt data =
           (if local_date rt (min p w) = local_date rt (max p w)
            then formatDate rt (startDate rt data)
            else formatDate rt (startDate rt data) @ '' - '' @ formatDate rt (endDate rt data))"
    unfolding calculateDateRange_def by (simp only: s e toDateString_eq_iff)
  show ?thesis
    using s e fs fe c short_date_shape [of rt "min p w"] short_date_shape [of rt "max p w"]
    by (simp only: simp_thms)
qed

theorem calculateDateRange_valid_witness:
  "calculateDateRange example_runtime
     (example_report 17 ''2025-07-09T13:30:00'' ''2025-07-16T11:30:00'' []) =
     ''Jul 9, 2025 - Jul 16, 2025'' \<and>
   calculateDateRange example_runtime
     (example_report 17 ''2025-07-16T11:30:00'' ''2025-07-09T13:30:00'' []) =
     ''Jul 9, 2025 - Jul 16, 2025'' \<and>
   calculateDateRange example_runtime
     (example_report 17 ''2025-07-09T13:30:00'' ''2025-07-09T08:00:00'' []) =
     ''Jul 9, 2025''"
proof -
  note a = calculateDateRange_valid [where rt = example_runtime
      and data = "example_report 17 ''2025-07-09T13:30:00'' ''2025-07-16T11:30:00'' []",
      unfolded example_datetimes, OF Date_parse_example(1) Date_parse_example(2)]
  note b = calculateDateRange_valid [where rt = example_runtime
      and data = "example_report 17 ''2025-07-16T11:30:00'' ''2025-07-09T13:30:00'' []",
      unfolded example_datetimes, OF Date_parse_example(2) Date_parse_example(1)]
  note c = calculateDateRange_valid [where rt = example_runtime
      and data = "example_report 17 ''2025-07-09T13:30:00'' ''2025-07-09T08:00:00'' []",
      unfolded example_datetimes, OF Date_parse_example(1) Date_parse_example(3)]
  note fs = conjunct2 [THEN conjunct2, THEN conjunct1]
  note fe = conjunct2 [THEN conjunct2, THEN conjunct2, THEN conjunct1]
  note range = conjunct2 [THEN conjunct2, THEN conjunct2, THEN conjunct2, THEN conjunct2,
      THEN conjunct2]
  have "calculateDateRange example_runtime
     (example_report 17 ''2025-07-09T13:30:00'' ''2025-07-16T11:30:00'' []) =
     ''Jul 9, 2025 - Jul 16, 2025''"
    using a [THEN range] a [THEN fs] a [THEN fe]
    by (simp add: local_date_example short_date_example)
  moreover have "calculateDateRange example_runtime
     (example_report 17 ''2025-07-16T11:30:00'' ''2025-07-09T13:30:00'' []) =
     ''Jul 9, 2025 - Jul 16, 2025''"
    using b [THEN range] b [THEN fs] b [THEN fe]
    by (simp add: local_date_example short_date_example)
  moreover have "calculateDateRange example_runtime
     (example_report 17 ''2025-07-09T13:30:00'' ''2025-07-09T08:00:00'' []) =
     ''Jul 9, 2025''"
    using c [THEN range] c [THEN fs] c [THEN fe]
    by (simp add: local_date_example short_date_example)
  ultimately show ?thesis by blast
qed

text \<open>
  Claim C10. For every queue report whose two interval datetimes parse to the same
  timestamp, both strict comparisons are false, the start and the end are both the
  \<open>worst_abandon_interval\<close> date, and \<open>calculateDateRange\<close> returns the single formatted
  date of that day, never a range.
\<close>

theorem calculateDateRange_equal:
  assumes "Date_parse rt (datetime (peak_interval (queue_metrics data))) = Some t"
    and "Date_parse rt (datetime (worst_abandon_interval (queue_metrics data))) = Some t"
  shows "\<not> Date_less (peakDate rt data) (worstDate rt data) \<and>
         \<not> Date_less (worstDate rt data) (peakDate rt data) \<and>
         startDate rt data = worstDate rt data \<and>
         endDate rt data = worstDate rt data \<and>
         calculateDateRange rt data = formatDate rt (worstDate rt data) \<and>
         calculateDateRange rt data = short_date (local_date rt t)"
  using assms
  by (simp add: calculateDateRange_def startDate_def endDate_def peakDate_def worstDate_def
      Date_less_def formatDate_def toLocaleDateString_def)

theorem calculateDateRange_equal_witness:
  "calculateDateRange example_runtime
     (example_report 17 ''2025-07-09T13:30:00'' ''2025-07-09T13:30:00'' []) = ''Jul 9, 2025''"
proof -
  note t = calculateDateRange_equal [where rt = example_runtime
      and data = "example_report 17 ''2025-07-09T13:30:00'' ''2025-07-09T13:30:00'' []",
      unfolded example_datetimes, OF Date_parse_example(1) Date_parse_example(1)]
  from t [THEN conjunct2, THEN conjunct2, THEN conjunct2, THEN conjunct2, THEN conjunct2]
  show ?thesis by (simp add: local_date_example short_date_example)
qed

end
